theory Spec2Isabelle
  imports Complex_Main
    "HOL-Library.AList"
    "HOL-Library.Char_ord"
    "HOL-Library.List_Lexorder"
begin

chapter \<open>BE Solar control centre: authentication, reference numbers, history, analytics\<close>

section \<open>Credential store and authenticator (core\_backend.py, lines 17--95)\<close>

text \<open>
  A row of the \<open>users\<close> table. The primary key \<open>id\<close> is assigned by the store
  (\<open>create_user\<close> never supplies it). \<open>last_login\<close> and \<open>last_logout\<close> are null
  until the first stamp.
\<close>

record user =
  uid :: nat
  username :: string
  password_hash :: string
  role :: string
  active :: bool
  failed_attempts :: int
  locked :: bool
  last_login :: "string option"
  last_logout :: "string option"

type_synonym users_table = "user list"

text \<open>
  \<open>hash_password\<close> is SHA-256 of the password, hex encoded. The digest is taken as a
  parameter \<open>H\<close> of every function that hashes, so every result below holds for any
  hash function.
\<close>

definition hash_password :: "(string \<Rightarrow> string) \<Rightarrow> string \<Rightarrow> string" where
  "hash_password H password = H password"

definition verify_password :: "(string \<Rightarrow> string) \<Rightarrow> string \<Rightarrow> string \<Rightarrow> bool" where
  "verify_password H password hashed = (hash_password H password = hashed)"

text \<open>
  \<open>table.update(vals).eq(col, v)\<close>: every row that satisfies the filter is rewritten,
  every other row and the order of the rows are kept.
\<close>

definition update_where :: "('r \<Rightarrow> bool) \<Rightarrow> ('r \<Rightarrow> 'r) \<Rightarrow> 'r list \<Rightarrow> 'r list" where
  "update_where P f rows = map (\<lambda>r. if P r then f r else r) rows"

text \<open>\<open>create_user\<close>: the store assigns the key \<open>new_id\<close> of the inserted row.\<close>

definition create_user ::
  "(string \<Rightarrow> string) \<Rightarrow> nat \<Rightarrow> users_table \<Rightarrow> string \<Rightarrow> string \<Rightarrow> string \<Rightarrow> users_table" where
  "create_user H new_id db uname password rl =
     db @ [\<lparr>uid = new_id, username = uname, password_hash = hash_password H password,
            role = rl, active = True, failed_attempts = 0, locked = False,
            last_login = None, last_logout = None\<rparr>]"

text \<open>\<open>get_user\<close>: the first row with that username, \<open>None\<close> when there is none.\<close>

definition get_user :: "users_table \<Rightarrow> string \<Rightarrow> user option" where
  "get_user db uname = find (\<lambda>r. username r = uname) db"

definition ensure_default_admin :: "(string \<Rightarrow> string) \<Rightarrow> nat \<Rightarrow> users_table \<Rightarrow> users_table" where
  "ensure_default_admin H new_id db =
     (if db = [] then create_user H new_id db ''admin'' ''admin@123'' ''admin'' else db)"

text \<open>
  \<open>validate_login\<close> returns the identity \<open>(username, role)\<close> or \<open>None\<close>, and the
  table after the call. \<open>now\<close> is \<open>datetime.utcnow().isoformat()\<close>. The guards come in
  the order of the source: absent, locked, inactive, correct password, wrong password.
\<close>

definition validate_login ::
  "(string \<Rightarrow> string) \<Rightarrow> string \<Rightarrow> users_table \<Rightarrow> string \<Rightarrow> string
     \<Rightarrow> (string \<times> string) option \<times> users_table" where
  "validate_login H now db uname password =
     (case get_user db uname of
        None \<Rightarrow> (None, db)
      | Some u \<Rightarrow>
          if locked u then (None, db)
          else if \<not> active u then (None, db)
          else if verify_password H password (password_hash u) then
            (Some (username u, role u),
             update_where (\<lambda>r. uid r = uid u)
               (\<lambda>r. r\<lparr>failed_attempts := 0, last_login := Some now\<rparr>) db)
          else
            (let attempts = failed_attempts u + 1;
                 lck = (attempts \<ge> 3)
             in (None,
                 update_where (\<lambda>r. uid r = uid u)
                   (\<lambda>r. r\<lparr>failed_attempts := attempts, locked := lck\<rparr>) db)))"

definition record_logout :: "string \<Rightarrow> users_table \<Rightarrow> string \<Rightarrow> users_table" where
  "record_logout now db uname =
     update_where (\<lambda>r. username r = uname) (\<lambda>r. r\<lparr>last_logout := Some now\<rparr>) db"

definition unlock_user :: "users_table \<Rightarrow> nat \<Rightarrow> users_table" where
  "unlock_user db user_id =
     update_where (\<lambda>r. uid r = user_id) (\<lambda>r. r\<lparr>failed_attempts := 0, locked := False\<rparr>) db"

text \<open>
  Every operation of the backend that writes the \<open>users\<close> table, as one datatype, and
  the table after one operation. The other functions of the backend read and write
  the \<open>invoices\<close>, \<open>agreements\<close> and \<open>activity_logs\<close> tables only.
\<close>

datatype user_op =
    CreateUser nat string string string
  | EnsureDefaultAdmin nat
  | ValidateLogin string string
  | RecordLogout string
  | UnlockUser nat

fun is_unlock :: "user_op \<Rightarrow> bool" where
  "is_unlock (UnlockUser _) = True"
| "is_unlock _ = False"

fun apply_user_op :: "(string \<Rightarrow> string) \<Rightarrow> string \<Rightarrow> users_table \<Rightarrow> user_op \<Rightarrow> users_table" where
  "apply_user_op H now db (CreateUser new_id uname password rl) =
     create_user H new_id db uname password rl"
| "apply_user_op H now db (EnsureDefaultAdmin new_id) = ensure_default_admin H new_id db"
| "apply_user_op H now db (ValidateLogin uname password) =
     snd (validate_login H now db uname password)"
| "apply_user_op H now db (RecordLogout uname) = record_logout now db uname"
| "apply_user_op H now db (UnlockUser user_id) = unlock_user db user_id"

text \<open>
  What a successful login, and what a failed attempt or an unlock, may not touch:
  two rows agree on every field outside the ones the update writes.
\<close>

definition frame_success :: "user \<Rightarrow> user \<Rightarrow> bool" where
  "frame_success r r' \<longleftrightarrow>
     uid r' = uid r \<and> username r' = username r \<and> password_hash r' = password_hash r \<and>
     role r' = role r \<and> active r' = active r \<and> locked r' = locked r \<and>
     last_logout r' = last_logout r"

definition frame_failure :: "user \<Rightarrow> user \<Rightarrow> bool" where
  "frame_failure r r' \<longleftrightarrow>
     uid r' = uid r \<and> username r' = username r \<and> password_hash r' = password_hash r \<and>
     role r' = role r \<and> active r' = active r \<and> last_login r' = last_login r \<and>
     last_logout r' = last_logout r"

text \<open>
  Concrete tables for the examples. The examples hash with list reversal in place of
  SHA-256: the password \<open>''secret''\<close> is stored as \<open>''terces''\<close>.
\<close>

definition staff_row :: user where
  "staff_row = \<lparr>uid = 7, username = ''asha'', password_hash = ''terces'', role = ''staff'',
                 active = True, failed_attempts = 0, locked = False,
                 last_login = None, last_logout = None\<rparr>"

definition admin_row :: user where
  "admin_row = \<lparr>uid = 1, username = ''admin'', password_hash = ''321@nimda'', role = ''admin'',
                 active = True, failed_attempts = 0, locked = False,
                 last_login = None, last_logout = None\<rparr>"

definition inactive_row :: user where
  "inactive_row = \<lparr>uid = 9, username = ''ravi'', password_hash = ''terces'', role = ''staff'',
                    active = False, failed_attempts = 0, locked = False,
                    last_login = None, last_logout = None\<rparr>"

definition inactive_locked_row :: user where
  "inactive_locked_row = \<lparr>uid = 9, username = ''ravi'', password_hash = ''terces'',
                    role = ''staff'', active = False, failed_attempts = 3, locked = True,
                    last_login = None, last_logout = None\<rparr>"

text \<open>
  The source declares no key on \<open>id\<close>. A second row with the id of \<open>staff_row\<close>,
  locked after three failures:
\<close>

definition twin_locked_row :: user where
  "twin_locked_row = \<lparr>uid = 7, username = ''bela'', password_hash = ''terces'',
                    role = ''staff'', active = True, failed_attempts = 3, locked = True,
                    last_login = None, last_logout = None\<rparr>"

section \<open>Strings and integers of the Python runtime\<close>

text \<open>
  The builtins the reference allocator relies on. A string is the list of its code
  points, which the type \<open>char\<close> takes below 256; a reference with a code point
  from 256 on, and the interpreter's limit on the number of digits, are outside the
  model. \<open>str.split\<close> with a one-character separator; \<open>int\<close> of a string
  (surrounding whitespace, one optional sign, decimal digits with single underscores
  between digits; anything else raises \<open>ValueError\<close>, here \<open>None\<close>); \<open>str\<close> of an
  integer and \<open>str.zfill\<close>.
\<close>

fun split_on :: "char \<Rightarrow> string \<Rightarrow> string list" where
  "split_on sep [] = [[]]"
| "split_on sep (c # cs) =
     (if c = sep then [] # split_on sep cs
      else (case split_on sep cs of [] \<Rightarrow> [[c]] | t # ts \<Rightarrow> (c # t) # ts))"

text \<open>
  The whitespace that \<open>int\<close> drops at both ends: tab, line feed, vertical tab, form
  feed, carriage return and space, and of the code points from 128 on the next-line
  control (133) and the no-break space (160). The separators 28 to 31 are not among
  them: \<open>int\<close> raises on a token that holds one.
\<close>

definition is_space :: "char \<Rightarrow> bool" where
  "is_space c \<longleftrightarrow> (of_char c :: nat) \<in> set [9, 10, 11, 12, 13, 32, 133, 160]"

definition strip :: "string \<Rightarrow> string" where
  "strip s = rev (dropWhile is_space (rev (dropWhile is_space s)))"

definition is_digit :: "char \<Rightarrow> bool" where
  "is_digit c \<longleftrightarrow> 48 \<le> (of_char c :: nat) \<and> (of_char c :: nat) \<le> 57"

definition digit_val :: "char \<Rightarrow> nat" where
  "digit_val c = of_char c - 48"

fun digits_ok :: "string \<Rightarrow> bool" where
  "digits_ok [] = False"
| "digits_ok [c] = is_digit c"
| "digits_ok (c # d # cs) =
     (is_digit c \<and> (if d = CHR ''_'' then digits_ok cs else digits_ok (d # cs)))"

definition digits_value :: "string \<Rightarrow> nat" where
  "digits_value s = foldl (\<lambda>a c. 10 * a + digit_val c) 0 (filter (\<lambda>c. c \<noteq> CHR ''_'') s)"

definition py_int_digits :: "string \<Rightarrow> int option" where
  "py_int_digits s = (if digits_ok s then Some (int (digits_value s)) else None)"

definition py_int :: "string \<Rightarrow> int option" where
  "py_int s =
     (case strip s of
        [] \<Rightarrow> None
      | c # cs \<Rightarrow>
          if c = CHR ''-'' then map_option uminus (py_int_digits cs)
          else if c = CHR ''+'' then py_int_digits cs
          else py_int_digits (c # cs))"

fun str_nat :: "nat \<Rightarrow> string" where
  "str_nat n =
     (if n < 10 then [char_of (48 + n)]
      else str_nat (n div 10) @ [char_of (48 + n mod 10)])"

declare str_nat.simps [simp del]

definition str_int :: "int \<Rightarrow> string" where
  "str_int n = (if n < 0 then CHR ''-'' # str_nat (nat (- n)) else str_nat (nat n))"

text \<open>\<open>str.zfill\<close>: never shortens; the padding goes after a leading sign.\<close>

definition zfill :: "nat \<Rightarrow> string \<Rightarrow> string" where
  "zfill width s =
     (if width \<le> length s then s
      else (let fill = replicate (width - length s) CHR ''0''
            in case s of
                 [] \<Rightarrow> fill
               | c # cs \<Rightarrow>
                   if c = CHR ''+'' \<or> c = CHR ''-'' then c # fill @ cs else fill @ s))"

text \<open>
  The store's \<open>LIKE\<close>: \<open>%\<close> matches any run of characters, \<open>_\<close> any one character,
  every other character itself (the escape character is not modelled). \<open>ILIKE\<close> is
  \<open>LIKE\<close> without case, here on ASCII letters.
\<close>

fun sql_like :: "string \<Rightarrow> string \<Rightarrow> bool" where
  "sql_like [] s = (s = [])"
| "sql_like (p # ps) [] = (p = CHR ''%'' \<and> sql_like ps [])"
| "sql_like (p # ps) (c # cs) =
     (if p = CHR ''%'' then sql_like ps (c # cs) \<or> sql_like (p # ps) cs
      else (p = CHR ''_'' \<or> p = c) \<and> sql_like ps cs)"

definition lower_char :: "char \<Rightarrow> char" where
  "lower_char c =
     (if 65 \<le> (of_char c :: nat) \<and> (of_char c :: nat) \<le> 90
      then char_of ((of_char c :: nat) + 32) else c)"

definition sql_ilike :: "string \<Rightarrow> string \<Rightarrow> bool" where
  "sql_ilike pat s = sql_like (map lower_char pat) (map lower_char s)"

section \<open>Documents (the invoices and agreements tables)\<close>

text \<open>
  A column value as the store's client returns it: null, a number or a text. Numbers
  are exact rationals: Python's floats are idealised, no rounding error, no infinity.
\<close>

datatype jval = JNull | JNum rat | JStr string

record document =
  customer_name :: string
  phone :: string
  address :: string
  consumer_no :: string
  subdivision :: string
  capacity :: rat
  phase :: string
  amount :: jval
  created_by :: string
  created_at :: string

record invoice = document +
  invoice_ref :: string

record agreement = document +
  agreement_no :: string

section \<open>Reference allocator (core\_backend.py, lines 109--140)\<close>

text \<open>
  The loop of both allocators: the last \<open>/\<close>-separated token of each fetched
  reference is parsed; a token that does not parse is skipped (\<open>except: pass\<close>).
\<close>

definition collect_nums :: "string list \<Rightarrow> int list" where
  "collect_nums rows =
     foldl (\<lambda>nums r. case py_int (last (split_on CHR ''/'' r)) of
                         Some n \<Rightarrow> nums @ [n]
                       | None \<Rightarrow> nums) [] rows"

definition py_max :: "int list \<Rightarrow> int" where
  "py_max nums = foldl max (hd nums) (tl nums)"

definition next_num_of :: "int list \<Rightarrow> int" where
  "next_num_of nums = (if nums \<noteq> [] then py_max nums + 1 else 1)"

text \<open>\<open>month_key\<close> is \<open>now.strftime("%m/%y")\<close>, \<open>year\<close> is \<open>str(now.year)\<close>.\<close>

definition get_next_invoice_ref :: "string \<Rightarrow> invoice list \<Rightarrow> string" where
  "get_next_invoice_ref month_key invoices =
     (let data = filter (sql_like (''%/'' @ month_key @ ''/%'')) (map invoice_ref invoices);
          nums = collect_nums data;
          next_num = next_num_of nums
      in ''BE/KNG/PMSG/QTN/'' @ month_key @ ''/'' @ zfill 4 (str_int next_num))"

definition get_next_agreement_no :: "string \<Rightarrow> agreement list \<Rightarrow> string" where
  "get_next_agreement_no year agreements =
     (let data = filter (sql_like (''%/'' @ year @ ''/%'')) (map agreement_no agreements);
          nums = collect_nums data;
          next_num = next_num_of nums
      in ''AG/SG/APDCL/'' @ year @ ''/'' @ zfill 4 (str_int next_num))"

text \<open>
  The allocation rule in the words of the specification, with nothing of the code in
  it. The last token of a reference is what follows its last \<open>/\<close>. A token is an
  integer when it is, between whitespace, an optional sign and a group of decimal
  digits in which single underscores may stand between two digits; it is the integer
  whose decimal numeral the digits are, leading zeros and underscores left out.
\<close>

definition last_segment :: "string \<Rightarrow> string" where
  "last_segment r = rev (takeWhile (\<lambda>c. c \<noteq> CHR ''/'') (rev r))"

definition whitespace :: "char set" where
  "whitespace =
     {CHR 0x09, CHR 0x0A, CHR 0x0B, CHR 0x0C, CHR 0x0D, CHR '' '', CHR 0x85, CHR 0xA0}"

inductive digitpart :: "string \<Rightarrow> bool" where
  digit: "c \<in> set ''0123456789'' \<Longrightarrow> digitpart [c]"
| next_digit: "c \<in> set ''0123456789'' \<Longrightarrow> digitpart s \<Longrightarrow> digitpart (c # s)"
| underscore: "c \<in> set ''0123456789'' \<Longrightarrow> digitpart s \<Longrightarrow> digitpart (c # CHR ''_'' # s)"

definition numeral_of :: "string \<Rightarrow> nat \<Rightarrow> bool" where
  "numeral_of ds m \<longleftrightarrow>
     (\<exists>k. filter (\<lambda>c. c \<noteq> CHR ''_'') ds = replicate k CHR ''0'' @ str_nat m)"

definition int_token :: "string \<Rightarrow> int \<Rightarrow> bool" where
  "int_token t n \<longleftrightarrow>
     (\<exists>l sg ds r m.
        t = l @ sg @ ds @ r \<and> set l \<subseteq> whitespace \<and> set r \<subseteq> whitespace \<and>
        digitpart ds \<and> numeral_of ds m \<and>
        (sg = [] \<and> n = int m \<or> sg = ''+'' \<and> n = int m \<or> sg = ''-'' \<and> n = - int m))"

text \<open>
  The numbers of a period are the integers that the last tokens of its references
  are; the next value is their maximum, or 0 if there is none, plus one.
\<close>

definition period_numbers :: "string \<Rightarrow> string list \<Rightarrow> int set" where
  "period_numbers key refs =
     {n. \<exists>r \<in> set refs. sql_like (''%/'' @ key @ ''/%'') r \<and> int_token (last_segment r) n}"

definition spec_next_number :: "int set \<Rightarrow> int" where
  "spec_next_number S = (if S = {} then 0 else Max S) + 1"

definition invoice_with_ref :: "string \<Rightarrow> invoice" where
  "invoice_with_ref r =
     \<lparr>customer_name = ''A Das'', phone = ''555-1234'', address = ''Guwahati'',
      consumer_no = ''C-1'', subdivision = ''S-1'', capacity = 3, phase = ''Single Phase'',
      amount = JNum 210000, created_by = ''asha'', created_at = ''2025-01-10T09:00:00'',
      invoice_ref = r\<rparr>"

section \<open>History query (core\_backend.py, lines 154--208)\<close>

text \<open>
  The query the builder sends: the filters are conjoined, the matching rows are ordered
  by \<open>created_at\<close>, latest first, and the page is the rows \<open>offset\<close> to
  \<open>offset + limit - 1\<close> of that order; \<open>count\<close> is the exact number of matching rows.
\<close>

record 'r page =
  data :: "'r list"
  count :: nat

definition select_page ::
  "('a document_scheme \<Rightarrow> bool) list \<Rightarrow> nat \<Rightarrow> nat \<Rightarrow> 'a document_scheme list
     \<Rightarrow> 'a document_scheme page" where
  "select_page filters limit offset rows =
     (let matching = filter (\<lambda>r. list_all (\<lambda>f. f r) filters) rows;
          ordered = rev (sort_key created_at matching)
      in \<lparr>data = take limit (drop offset ordered), count = length matching\<rparr>)"

text \<open>
  The \<open>or_\<close> group of the search: the term between two \<open>%\<close>, matched without case
  against the customer name, the phone and the reference column. Characters of the
  term that the filter grammar of the store reserves are not modelled.
\<close>

definition or_ilike ::
  "('a document_scheme \<Rightarrow> string) \<Rightarrow> string \<Rightarrow> 'a document_scheme \<Rightarrow> bool" where
  "or_ilike ref_col search r =
     (let pat = ''%'' @ search @ ''%''
      in sql_ilike pat (customer_name r) \<or> sql_ilike pat (phone r) \<or> sql_ilike pat (ref_col r))"

definition fetch_invoices ::
  "string \<Rightarrow> string \<Rightarrow> string option \<Rightarrow> nat \<Rightarrow> nat \<Rightarrow> invoice list \<Rightarrow> invoice page" where
  "fetch_invoices rl uname search limit offset invoices =
     (let query = [];
          query = (if rl \<noteq> ''admin'' then query @ [\<lambda>r. created_by r = uname] else query);
          query = (case search of
                     None \<Rightarrow> query
                   | Some s \<Rightarrow> if s \<noteq> [] then query @ [or_ilike invoice_ref s] else query)
      in select_page query limit offset invoices)"

definition fetch_agreements ::
  "string \<Rightarrow> string \<Rightarrow> string option \<Rightarrow> nat \<Rightarrow> nat \<Rightarrow> agreement list \<Rightarrow> agreement page" where
  "fetch_agreements rl uname search limit offset agreements =
     (let query = [];
          query = (if rl \<noteq> ''admin'' then query @ [\<lambda>r. created_by r = uname] else query);
          query = (case search of
                     None \<Rightarrow> query
                   | Some s \<Rightarrow> if s \<noteq> [] then query @ [or_ilike agreement_no s] else query)
      in select_page query limit offset agreements)"

text \<open>
  The float arithmetic of the interpreter is no code of the repository, and part of it
  changes with the interpreter's version (how \<open>sum\<close> adds, how \<open>round\<close> rounds a
  binary fraction). It is a parameter \<open>fl\<close> of every function that computes with
  floats. A float is the rational number it stands for, and \<open>fl\<close> gives
  \<open>float(s)\<close> of a text (\<open>None\<close> where it raises \<open>ValueError\<close>), \<open>float(x)\<close> of a
  number (\<open>None\<close> where it raises \<open>OverflowError\<close>), \<open>a + b\<close>, \<open>sum\<close> of one or
  more floats, \<open>a / b\<close> and \<open>round(x, 2)\<close>. Infinities and not-a-number are outside
  the model.
\<close>

record float_ops =
  fl_text :: "string \<Rightarrow> rat option"
  fl_num :: "rat \<Rightarrow> rat option"
  fl_add :: "rat \<Rightarrow> rat \<Rightarrow> rat"
  fl_sum :: "rat list \<Rightarrow> rat"
  fl_div :: "rat \<Rightarrow> rat \<Rightarrow> rat"
  fl_round2 :: "rat \<Rightarrow> rat"

datatype py_error = TypeError | ValueError | OverflowError

text \<open>\<open>float(v)\<close> of a column value: a null raises \<open>TypeError\<close>.\<close>

definition py_float :: "float_ops \<Rightarrow> jval \<Rightarrow> py_error + rat" where
  "py_float fl v =
     (case v of
        JNull \<Rightarrow> Inl TypeError
      | JNum q \<Rightarrow> (case fl_num fl q of None \<Rightarrow> Inl OverflowError | Some x \<Rightarrow> Inr x)
      | JStr s \<Rightarrow> (case fl_text fl s of None \<Rightarrow> Inl ValueError | Some x \<Rightarrow> Inr x))"

record totals =
  records :: nat
  total_amount :: rat

text \<open>
  \<open>calculate_invoice_totals\<close> and \<open>calculate_agreement_totals\<close>: the addition sits in
  a \<open>try\<close> whose handler does nothing, so a row whose amount does not coerce is skipped.
  The field \<open>records\<close> is the key \<open>"count"\<close> of the returned dictionary.
\<close>

definition calculate_invoice_totals :: "float_ops \<Rightarrow> invoice list \<Rightarrow> totals" where
  "calculate_invoice_totals fl invoices =
     \<lparr>records = length invoices,
      total_amount = foldl (\<lambda>tot i. case py_float fl (amount i) of
                                         Inr x \<Rightarrow> fl_add fl tot x
                                       | Inl e \<Rightarrow> tot) 0 invoices\<rparr>"

definition calculate_agreement_totals :: "float_ops \<Rightarrow> agreement list \<Rightarrow> totals" where
  "calculate_agreement_totals fl agreements =
     \<lparr>records = length agreements,
      total_amount = foldl (\<lambda>tot a. case py_float fl (amount a) of
                                         Inr x \<Rightarrow> fl_add fl tot x
                                       | Inl e \<Rightarrow> tot) 0 agreements\<rparr>"

section \<open>Analytics (core\_backend.py, lines 214--262)\<close>

text \<open>The bounds are applied when they are given and not empty; both are inclusive.\<close>

definition fetch_invoices_in_range ::
  "string option \<Rightarrow> string option \<Rightarrow> invoice list \<Rightarrow> invoice list" where
  "fetch_invoices_in_range start_date end_date invoices =
     (let query = invoices;
          query = (case start_date of
                     None \<Rightarrow> query
                   | Some s \<Rightarrow> if s \<noteq> [] then filter (\<lambda>r. s \<le> created_at r) query else query);
          query = (case end_date of
                     None \<Rightarrow> query
                   | Some e \<Rightarrow> if e \<noteq> [] then filter (\<lambda>r. created_at r \<le> e) query else query)
      in query)"

text \<open>
  \<open>sum(float(i["amount"]) for i in invoices)\<close>: the rows are coerced in order, outside
  any \<open>try\<close>; the first amount that does not coerce raises out of the function. The
  sum of no float is the integer 0.
\<close>

fun coerce_amounts :: "float_ops \<Rightarrow> invoice list \<Rightarrow> py_error + rat list" where
  "coerce_amounts fl [] = Inr []"
| "coerce_amounts fl (i # invoices) =
     (case py_float fl (amount i) of
        Inl e \<Rightarrow> Inl e
      | Inr x \<Rightarrow> (case coerce_amounts fl invoices of
                    Inl e \<Rightarrow> Inl e
                  | Inr xs \<Rightarrow> Inr (x # xs)))"

definition py_sum :: "float_ops \<Rightarrow> rat list \<Rightarrow> rat" where
  "py_sum fl xs = (if xs = [] then 0 else fl_sum fl xs)"

record kpis =
  total_revenue :: rat
  total_invoices :: nat
  avg_value :: rat

definition get_revenue_kpis ::
  "float_ops \<Rightarrow> string option \<Rightarrow> string option \<Rightarrow> invoice list \<Rightarrow> py_error + kpis" where
  "get_revenue_kpis fl start_date end_date db =
     (let invoices = fetch_invoices_in_range start_date end_date db
      in case coerce_amounts fl invoices of
           Inl e \<Rightarrow> Inl e
         | Inr xs \<Rightarrow>
             (let tot = py_sum fl xs;
                  total_count = length invoices;
                  avg = (if total_count \<noteq> 0
                         then fl_round2 fl (fl_div fl tot (of_nat total_count)) else 0)
              in Inr \<lparr>total_revenue = tot, total_invoices = total_count, avg_value = avg\<rparr>))"

text \<open>A dictionary in insertion order; \<open>d.get(k, v)\<close> and \<open>d[k] = v\<close>.\<close>

definition dict_get :: "('k \<times> 'v) list \<Rightarrow> 'k \<Rightarrow> 'v \<Rightarrow> 'v" where
  "dict_get d k dflt = (case map_of d k of None \<Rightarrow> dflt | Some v \<Rightarrow> v)"

fun revenue_by ::
  "float_ops \<Rightarrow> (invoice \<Rightarrow> string) \<Rightarrow> (string \<times> rat) list \<Rightarrow> invoice list
     \<Rightarrow> py_error + (string \<times> rat) list" where
  "revenue_by fl key series [] = Inr series"
| "revenue_by fl key series (iv # invoices) =
     (case py_float fl (amount iv) of
        Inl e \<Rightarrow> Inl e
      | Inr x \<Rightarrow>
          revenue_by fl key
            (AList.update (key iv) (fl_add fl (dict_get series (key iv) 0) x) series)
            invoices)"

definition get_daily_revenue_series ::
  "float_ops \<Rightarrow> string option \<Rightarrow> string option \<Rightarrow> invoice list
     \<Rightarrow> py_error + (string \<times> rat) list" where
  "get_daily_revenue_series fl start_date end_date db =
     (case revenue_by fl (\<lambda>iv. take 10 (created_at iv)) []
             (fetch_invoices_in_range start_date end_date db) of
        Inl e \<Rightarrow> Inl e
      | Inr series \<Rightarrow> Inr (sort_key fst series))"

definition get_staff_performance ::
  "float_ops \<Rightarrow> string option \<Rightarrow> string option \<Rightarrow> invoice list
     \<Rightarrow> py_error + (string \<times> rat) list" where
  "get_staff_performance fl start_date end_date db =
     revenue_by fl created_by [] (fetch_invoices_in_range start_date end_date db)"

definition get_phase_split ::
  "string option \<Rightarrow> string option \<Rightarrow> invoice list \<Rightarrow> (string \<times> nat) list" where
  "get_phase_split start_date end_date db =
     foldl (\<lambda>split iv. AList.update (phase iv) (dict_get split (phase iv) 0 + 1) split)
       [(''Single Phase'', 0), (''Three Phase'', 0)]
       (fetch_invoices_in_range start_date end_date db)"

section \<open>Document generation (streamlit\_app.py, lines 139--221)\<close>

definition RATE_PER_KW :: int where
  "RATE_PER_KW = 70000"

text \<open>\<open>int(x)\<close> of a number: towards zero.\<close>

definition py_trunc :: "rat \<Rightarrow> int" where
  "py_trunc q = (if 0 \<le> q then \<lfloor>q\<rfloor> else \<lceil>q\<rceil>)"

record form_input =
  in_customer_name :: string
  in_phone :: string
  in_address :: string
  in_consumer_no :: string
  in_subdivision :: string
  in_capacity :: rat

record store =
  invoices :: "invoice list"
  agreements :: "agreement list"
  activity_logs :: "(string \<times> string \<times> string) list"

definition insert_invoice :: "invoice \<Rightarrow> store \<Rightarrow> store" where
  "insert_invoice row st = st\<lparr>invoices := invoices st @ [row]\<rparr>"

definition insert_agreement :: "agreement \<Rightarrow> store \<Rightarrow> store" where
  "insert_agreement row st = st\<lparr>agreements := agreements st @ [row]\<rparr>"

definition log_activity :: "string \<Rightarrow> string \<Rightarrow> string \<Rightarrow> store \<Rightarrow> store" where
  "log_activity uname act category st =
     st\<lparr>activity_logs := activity_logs st @ [(uname, act, category)]\<rparr>"

text \<open>
  The handler of the button of \<open>generate_documents_page\<close>. \<open>uname\<close> is the session's
  user, \<open>month_key\<close> and \<open>year\<close> are the period keys of the two allocators and
  \<open>now\<close> is \<open>now.isoformat()\<close>. \<open>Inl\<close> is the message shown when the form is refused.
\<close>

definition generate_documents ::
  "string \<Rightarrow> string \<Rightarrow> string \<Rightarrow> string \<Rightarrow> form_input \<Rightarrow> store \<Rightarrow> string + store" where
  "generate_documents uname month_key year now form st =
     (let cap = in_capacity form;
          ph = (if 5 \<le> cap then ''Three Phase'' else ''Single Phase'');
          total_amt = py_trunc (cap * of_int RATE_PER_KW)
      in if in_customer_name form = [] \<or> in_phone form = []
         then Inl ''Customer name and phone are required.''
         else
           (let inv_ref = get_next_invoice_ref month_key (invoices st);
                agr_no = get_next_agreement_no year (agreements st);
                st = insert_invoice
                       \<lparr>customer_name = in_customer_name form, phone = in_phone form,
                        address = in_address form, consumer_no = in_consumer_no form,
                        subdivision = in_subdivision form, capacity = cap, phase = ph,
                        amount = JNum (of_int total_amt), created_by = uname, created_at = now,
                        invoice_ref = inv_ref\<rparr> st;
                st = insert_agreement
                       \<lparr>customer_name = in_customer_name form, phone = in_phone form,
                        address = in_address form, consumer_no = in_consumer_no form,
                        subdivision = in_subdivision form, capacity = cap, phase = ph,
                        amount = JNum (of_int total_amt), created_by = uname, created_at = now,
                        agreement_no = agr_no\<rparr> st;
                st = log_activity uname (''Generated '' @ inv_ref @ '' & '' @ agr_no)
                       ''generate'' st
            in Inr st))"

definition example_form :: "rat \<Rightarrow> form_input" where
  "example_form cap =
     \<lparr>in_customer_name = ''A Das'', in_phone = ''555-1234'', in_address = ''Guwahati'',
      in_consumer_no = ''C-1'', in_subdivision = ''S-1'', in_capacity = cap\<rparr>"

definition empty_store :: store where
  "empty_store = \<lparr>invoices = [], agreements = [], activity_logs = []\<rparr>"

definition invoice_of :: "string \<Rightarrow> string \<Rightarrow> jval \<Rightarrow> string \<Rightarrow> invoice" where
  "invoice_of who ph amt day =
     \<lparr>customer_name = ''A Das'', phone = ''555-1234'', address = ''Guwahati'',
      consumer_no = ''C-1'', subdivision = ''S-1'', capacity = 3, phase = ph,
      amount = amt, created_by = who, created_at = day,
      invoice_ref = ''BE/KNG/PMSG/QTN/01/25/0001''\<rparr>"

definition agreement_of :: "string \<Rightarrow> string \<Rightarrow> jval \<Rightarrow> string \<Rightarrow> agreement" where
  "agreement_of who ph amt day =
     \<lparr>customer_name = ''A Das'', phone = ''555-1234'', address = ''Guwahati'',
      consumer_no = ''C-1'', subdivision = ''S-1'', capacity = 3, phase = ph,
      amount = amt, created_by = who, created_at = day,
      agreement_no = ''AG/SG/APDCL/2025/0001''\<rparr>"

text \<open>
  The amounts of the rows that coerce, in order: what is left when the rows that do
  not coerce are skipped.
\<close>

definition coercible_amounts :: "float_ops \<Rightarrow> 'a document_scheme list \<Rightarrow> rat list" where
  "coercible_amounts fl rows =
     List.map_filter (\<lambda>r. case py_float fl (amount r) of Inr x \<Rightarrow> Some x | Inl e \<Rightarrow> None) rows"

text \<open>
  The arithmetic of the examples. Every number of the examples is a whole number far
  below \<open>2^53\<close>, and so is every sum and the one average: on these the float
  arithmetic of the interpreter is exact and \<open>round(x, 2)\<close> changes nothing. A text
  is read as an integer literal.
\<close>

definition int_literal :: "string \<Rightarrow> rat option" where
  "int_literal s = map_option of_int (py_int s)"

definition whole_numbers :: float_ops where
  "whole_numbers =
     \<lparr>fl_text = int_literal, fl_num = Some, fl_add = (+), fl_sum = sum_list,
      fl_div = (/), fl_round2 = (\<lambda>x. x)\<rparr>"

section \<open>Properties of the authenticator\<close>

lemma length_update_where: "length (update_where P f rows) = length rows"
  by (simp add: update_where_def)

lemma nth_update_where:
  "i < length rows \<Longrightarrow>
   update_where P f rows ! i = (if P (rows ! i) then f (rows ! i) else rows ! i)"
  by (simp add: update_where_def)

lemma list_all2_update_where:
  "(\<And>r. r \<in> set rows \<Longrightarrow> Q r r) \<Longrightarrow> (\<And>r. r \<in> set rows \<Longrightarrow> P r \<Longrightarrow> Q r (f r)) \<Longrightarrow>
   list_all2 Q rows (update_where P f rows)"
  by (simp add: update_where_def list_all2_map2 list_all2_same)

lemma get_user_Some_mem: "get_user db n = Some u \<Longrightarrow> u \<in> set db \<and> username u = n"
  by (auto simp: get_user_def find_Some_iff)

text \<open>
  An update by the id of the row that \<open>get_user\<close> found, which keeps usernames, is
  seen by the next \<open>get_user\<close>: the row found is the first of its name before and after.
\<close>

lemma get_user_update_where:
  assumes "get_user db n = Some u" and "\<And>r. username (f r) = username r"
  shows "get_user (update_where (\<lambda>r. uid r = uid u) f db) n = Some (f u)"
  using assms(1)
proof (induction db)
  case Nil
  then show ?case by (simp add: get_user_def)
next
  case (Cons r rs)
  then show ?case
    by (auto simp: get_user_def update_where_def assms(2) split: if_splits)
qed

lemma validate_login_wrong:
  assumes "get_user db n = Some u" "\<not> locked u" "active u"
    and "\<not> verify_password H pw (password_hash u)"
  shows "fst (validate_login H now db n pw) = None"
    and "get_user (snd (validate_login H now db n pw)) n =
           Some (u\<lparr>failed_attempts := failed_attempts u + 1,
                   locked := (3 \<le> failed_attempts u + 1)\<rparr>)"
  using assms by (simp_all add: validate_login_def Let_def get_user_update_where)

lemma validate_login_locked:
  assumes "get_user db n = Some u" "locked u"
  shows "validate_login H now db n pw = (None, db)"
  using assms by (simp add: validate_login_def)

lemma validate_login_ok:
  assumes "get_user db n = Some u" "\<not> locked u" "active u"
    and "verify_password H pw (password_hash u)"
  shows "fst (validate_login H now db n pw) = Some (username u, role u)"
    and "get_user (snd (validate_login H now db n pw)) n =
           Some (u\<lparr>failed_attempts := 0, last_login := Some now\<rparr>)"
  using assms by (simp_all add: validate_login_def Let_def get_user_update_where)

lemma get_user_unlock:
  assumes "get_user db n = Some u"
  shows "get_user (unlock_user db (uid u)) n = Some (u\<lparr>failed_attempts := 0, locked := False\<rparr>)"
  using assms by (simp add: unlock_user_def get_user_update_where)

lemma three_wrong_attempts:
  assumes u: "get_user db n = Some u" "\<not> locked u" "active u" "failed_attempts u = 0"
    and w1: "\<not> verify_password H p1 (password_hash u)"
    and w2: "\<not> verify_password H p2 (password_hash u)"
    and w3: "\<not> verify_password H p3 (password_hash u)"
    and db3: "db3 = foldl (apply_user_op H now) db
                      [ValidateLogin n p1, ValidateLogin n p2, ValidateLogin n p3]"
  shows "get_user db3 n = Some (u\<lparr>failed_attempts := 3, locked := True\<rparr>)"
    and "validate_login H now db3 n pw = (None, db3)"
proof -
  let ?db1 = "snd (validate_login H now db n p1)"
  let ?u1 = "u\<lparr>failed_attempts := 1, locked := False\<rparr>"
  let ?db2 = "snd (validate_login H now ?db1 n p2)"
  let ?u2 = "u\<lparr>failed_attempts := 2, locked := False\<rparr>"
  have g1: "get_user ?db1 n = Some ?u1"
    using validate_login_wrong(2) [OF u(1,2,3) w1, of now] u(4) by simp
  have g2: "get_user ?db2 n = Some ?u2"
    using validate_login_wrong(2) [OF g1, of H p2 now] u(3) w2 by simp
  have g3: "get_user (snd (validate_login H now ?db2 n p3)) n =
              Some (u\<lparr>failed_attempts := 3, locked := True\<rparr>)"
    using validate_login_wrong(2) [OF g2, of H p3 now] u(3) w3 by simp
  have eq: "db3 = snd (validate_login H now ?db2 n p3)"
    by (simp add: db3)
  show "get_user db3 n = Some (u\<lparr>failed_attempts := 3, locked := True\<rparr>)"
    using g3 eq by simp
  then show "validate_login H now db3 n pw = (None, db3)"
    by (rule validate_login_locked) simp
qed

lemma validate_login_frame_success:
  "fst (validate_login H now db n pw) \<noteq> None \<Longrightarrow>
   list_all2 frame_success db (snd (validate_login H now db n pw))"
proof (cases "get_user db n")
  case None
  then show ?thesis by (simp add: validate_login_def list_all2_same frame_success_def)
next
  case (Some u)
  assume ok: "fst (validate_login H now db n pw) \<noteq> None"
  have "list_all2 frame_success db
          (update_where (\<lambda>r. uid r = uid u)
             (\<lambda>r. r\<lparr>failed_attempts := 0, last_login := Some now\<rparr>) db)"
    by (rule list_all2_update_where) (simp_all add: frame_success_def)
  with Some ok show ?thesis
    by (simp add: validate_login_def Let_def split: if_splits)
qed

lemma validate_login_frame_failure:
  "fst (validate_login H now db n pw) = None \<Longrightarrow>
   list_all2 frame_failure db (snd (validate_login H now db n pw))"
proof (cases "get_user db n")
  case None
  then show ?thesis by (simp add: validate_login_def list_all2_same frame_failure_def)
next
  case (Some u)
  assume ko: "fst (validate_login H now db n pw) = None"
  have same: "list_all2 frame_failure db db"
    by (simp add: list_all2_same frame_failure_def)
  have "list_all2 frame_failure db
          (update_where (\<lambda>r. uid r = uid u)
             (\<lambda>r. r\<lparr>failed_attempts := failed_attempts u + 1,
                    locked := (3 \<le> failed_attempts u + 1)\<rparr>) db)"
    by (rule list_all2_update_where) (simp_all add: frame_failure_def)
  with Some ko same show ?thesis
    by (simp add: validate_login_def Let_def split: if_splits)
qed

lemma unlock_user_frame: "list_all2 frame_failure db (unlock_user db k)"
  unfolding unlock_user_def
  by (rule list_all2_update_where) (simp_all add: frame_failure_def)

lemma validate_login_other_rows:
  "get_user db n = Some u \<Longrightarrow> i < length db \<Longrightarrow> uid (db ! i) \<noteq> uid u \<Longrightarrow>
   snd (validate_login H now db n pw) ! i = db ! i"
  by (simp add: validate_login_def Let_def nth_update_where)

lemma unlock_user_other_rows:
  "i < length db \<Longrightarrow> uid (db ! i) \<noteq> k \<Longrightarrow> unlock_user db k ! i = db ! i"
  by (simp add: unlock_user_def nth_update_where)

lemma length_validate_login: "length (snd (validate_login H now db n pw)) = length db"
  by (simp add: validate_login_def Let_def length_update_where split: option.splits)

lemma validate_login_uid:
  "i < length db \<Longrightarrow> uid (snd (validate_login H now db n pw) ! i) = uid (db ! i)"
  by (simp add: validate_login_def Let_def nth_update_where split: option.splits)

lemma distinct_uid_row:
  assumes "distinct (map uid db)" "u \<in> set db" "i < length db" "uid (db ! i) = uid u"
  shows "db ! i = u"
proof -
  from assms(2) obtain j where j: "j < length db" "db ! j = u"
    by (auto simp: in_set_conv_nth)
  with assms have "map uid db ! i = map uid db ! j" by simp
  with assms(1,3) j(1) have "i = j"
    by (simp add: nth_eq_iff_index_eq del: nth_map)
  with j show ?thesis by simp
qed

lemma validate_login_locked_mono:
  assumes "distinct (map uid db)" "i < length db" "locked (db ! i)"
  shows "locked (snd (validate_login H now db n pw) ! i)"
proof (cases "get_user db n")
  case None
  then show ?thesis using assms by (simp add: validate_login_def)
next
  case (Some u)
  then have mem: "u \<in> set db" by (simp add: get_user_Some_mem)
  show ?thesis
  proof (cases "locked u \<or> \<not> active u")
    case True
    then show ?thesis using Some assms by (auto simp: validate_login_def)
  next
    case False
    then have "uid (db ! i) \<noteq> uid u"
      using distinct_uid_row [OF assms(1) mem assms(2)] assms(3) by auto
    then show ?thesis
      using Some assms by (simp add: validate_login_other_rows)
  qed
qed

lemma apply_user_op_locked_mono:
  assumes "distinct (map uid db)" "\<not> is_unlock opn" "i < length db"
  shows "length db \<le> length (apply_user_op H now db opn)"
    and "uid (apply_user_op H now db opn ! i) = uid (db ! i)"
    and "locked (db ! i) \<Longrightarrow> locked (apply_user_op H now db opn ! i)"
proof -
  show "length db \<le> length (apply_user_op H now db opn)"
    by (cases opn)
       (simp_all add: create_user_def ensure_default_admin_def record_logout_def
          unlock_user_def length_update_where length_validate_login)
  show "uid (apply_user_op H now db opn ! i) = uid (db ! i)"
    using assms(2,3)
    by (cases opn)
       (auto simp: create_user_def ensure_default_admin_def record_logout_def
          nth_update_where nth_append validate_login_uid)
  show "locked (db ! i) \<Longrightarrow> locked (apply_user_op H now db opn ! i)"
    using assms
    by (cases opn)
       (auto simp: create_user_def ensure_default_admin_def record_logout_def
          nth_update_where nth_append validate_login_locked_mono)
qed

lemma unlock_user_sets:
  assumes "r \<in> set (unlock_user db k)" "uid r = k"
  shows "failed_attempts r = 0 \<and> \<not> locked r"
proof -
  from assms(1) obtain r0 where r0: "r0 \<in> set db"
    and r: "r = (if uid r0 = k then r0\<lparr>failed_attempts := 0, locked := False\<rparr> else r0)"
    unfolding unlock_user_def update_where_def by (auto simp del: split_paired_Ex)
  show ?thesis
  proof (cases "uid r0 = k")
    case True
    with r show ?thesis by simp
  next
    case False
    with r assms(2) show ?thesis by simp
  qed
qed

lemma login_after_unlock:
  assumes "get_user db n = Some u" "active u" "verify_password H pw (password_hash u)"
  shows "fst (validate_login H now (unlock_user db (uid u)) n pw) = Some (username u, role u)"
    and "get_user (snd (validate_login H now (unlock_user db (uid u)) n pw)) n =
           Some (u\<lparr>failed_attempts := 0, locked := False, last_login := Some now\<rparr>)"
  using validate_login_ok [OF get_user_unlock [OF assms(1)], of H pw now] assms(2,3)
  by simp_all

lemma validate_login_inactive:
  assumes "get_user db n = Some u" "\<not> active u"
  shows "validate_login H now db n pw = (None, db)"
  using assms by (simp add: validate_login_def)

lemma validate_login_absent:
  assumes "get_user db n = None"
  shows "validate_login H now db n pw = (None, db)"
  using assms by (simp add: validate_login_def)

lemma login_after_unlock_inactive:
  assumes "get_user db n = Some u" "\<not> active u"
  shows "validate_login H now (unlock_user db (uid u)) n pw = (None, unlock_user db (uid u))"
  using validate_login_inactive [OF get_user_unlock [OF assms(1)], of H now pw] assms(2)
  by simp

section \<open>Properties of the string functions\<close>

lemma of_char_digit: "(d::nat) < 10 \<Longrightarrow> (of_char (char_of (48 + d) :: char) :: nat) = 48 + d"
  by (simp add: of_char_of)

lemma is_digit_char_of: "(d::nat) < 10 \<Longrightarrow> is_digit (char_of (48 + d))"
  by (simp add: is_digit_def of_char_digit)

lemma digit_val_char_of: "(d::nat) < 10 \<Longrightarrow> digit_val (char_of (48 + d)) = d"
  by (simp add: digit_val_def of_char_digit)

lemma str_nat_digits: "list_all is_digit (str_nat n)"
proof (induction n rule: str_nat.induct)
  case (1 n)
  show ?case
  proof (cases "n < 10")
    case True
    then show ?thesis by (simp add: str_nat.simps [of n] is_digit_char_of)
  next
    case False
    with "1" show ?thesis by (simp add: str_nat.simps [of n] is_digit_char_of)
  qed
qed

lemma str_nat_nonempty: "str_nat n \<noteq> []"
  by (simp add: str_nat.simps [of n])

lemma foldl_str_nat: "foldl (\<lambda>a c. 10 * a + digit_val c) 0 (str_nat n) = n"
proof (induction n rule: str_nat.induct)
  case (1 n)
  show ?case
  proof (cases "n < 10")
    case True
    then show ?thesis by (simp add: str_nat.simps [of n] digit_val_char_of)
  next
    case False
    with "1" show ?thesis by (simp add: str_nat.simps [of n] digit_val_char_of)
  qed
qed

lemma foldl_zeros:
  "foldl (\<lambda>a c. 10 * a + digit_val c) 0 (replicate k CHR ''0'' @ s) =
   foldl (\<lambda>a c. 10 * a + digit_val c) 0 s"
  by (induction k) (simp_all add: digit_val_def)

lemma is_digit_not_underscore: "is_digit c \<Longrightarrow> c \<noteq> CHR ''_''"
  by (auto simp: is_digit_def)

lemma digits_ok_all_digits: "s \<noteq> [] \<Longrightarrow> list_all is_digit s \<Longrightarrow> digits_ok s"
  by (induction s rule: digits_ok.induct) (auto simp: is_digit_not_underscore)

lemma filter_underscore_digits: "list_all is_digit s \<Longrightarrow> filter (\<lambda>c. c \<noteq> CHR ''_'') s = s"
  by (induction s) (auto simp: is_digit_not_underscore)

lemma is_digit_zero: "is_digit CHR ''0''"
  by (simp add: is_digit_def)

lemma py_int_digits_padded:
  "py_int_digits (replicate k CHR ''0'' @ str_nat n) = Some (int n)"
proof -
  let ?s = "replicate k CHR ''0'' @ str_nat n"
  have all: "list_all is_digit ?s"
    using str_nat_digits [of n] by (auto simp: list_all_iff is_digit_zero)
  have ne: "?s \<noteq> []" by (simp add: str_nat_nonempty)
  show ?thesis
    unfolding py_int_digits_def digits_value_def
    using digits_ok_all_digits [OF ne all]
    by (simp only: filter_underscore_digits [OF all] foldl_zeros foldl_str_nat if_True)
qed

lemma is_digit_not_space: "is_digit c \<Longrightarrow> \<not> is_space c"
  by (auto simp: is_digit_def is_space_def)

lemma strip_id:
  assumes "s \<noteq> []" "\<not> is_space (hd s)" "\<not> is_space (last s)"
  shows "strip s = s"
proof -
  from assms(1,2) have a: "dropWhile is_space s = s"
    by (cases s) simp_all
  from assms(1,3) have b: "dropWhile is_space (rev s) = rev s"
    by (cases "rev s") (simp_all add: last_rev [symmetric] hd_rev)
  show ?thesis by (simp add: strip_def a b)
qed

lemma hd_str_nat_digit: "is_digit (hd (str_nat n))"
  using str_nat_digits [of n] str_nat_nonempty [of n]
  by (cases "str_nat n") simp_all

lemma last_str_nat_digit: "is_digit (last (str_nat n))"
  using str_nat_digits [of n] str_nat_nonempty [of n]
  by (simp add: list_all_iff)

lemma py_int_padded_nat: "py_int (replicate k CHR ''0'' @ str_nat n) = Some (int n)"
proof -
  let ?s = "replicate k CHR ''0'' @ str_nat n"
  have ne: "?s \<noteq> []" by (simp add: str_nat_nonempty)
  have h: "is_digit (hd ?s)"
    by (cases k) (simp_all add: hd_append str_nat_nonempty hd_str_nat_digit is_digit_zero)
  have l: "is_digit (last ?s)"
    by (simp add: str_nat_nonempty last_str_nat_digit)
  have st: "strip ?s = ?s"
    by (rule strip_id [OF ne is_digit_not_space [OF h] is_digit_not_space [OF l]])
  obtain c cs where cs: "?s = c # cs" using ne by (cases ?s) auto
  with h have d: "is_digit c" by simp
  then have "c \<noteq> CHR ''-''" "c \<noteq> CHR ''+''"
    by (auto simp: is_digit_def)
  then have "py_int ?s = py_int_digits ?s"
    unfolding py_int_def st by (simp add: cs)
  then show ?thesis by (simp only: py_int_digits_padded)
qed

lemma py_int_minus_padded: "py_int (CHR ''-'' # replicate k CHR ''0'' @ str_nat n) = Some (- int n)"
proof -
  let ?t = "replicate k CHR ''0'' @ str_nat n"
  let ?s = "CHR ''-'' # ?t"
  have l: "is_digit (last ?s)"
    by (simp add: str_nat_nonempty last_str_nat_digit)
  have m: "\<not> is_space (hd ?s)" by (simp add: is_space_def)
  have ne: "?s \<noteq> []" by simp
  have st: "strip ?s = ?s"
    by (rule strip_id [OF ne m is_digit_not_space [OF l]])
  show ?thesis
    unfolding py_int_def st by (simp add: py_int_digits_padded)
qed

lemma zfill_str_int_cases:
  "zfill w (str_int n) =
     (if n < 0 then CHR ''-'' # replicate (w - Suc (length (str_nat (nat (- n))))) CHR ''0''
                      @ str_nat (nat (- n))
      else replicate (w - length (str_nat (nat n))) CHR ''0'' @ str_nat (nat n))"
proof (cases "n < 0")
  case True
  then show ?thesis by (simp add: zfill_def str_int_def Let_def)
next
  case False
  obtain c cs where cs: "str_nat (nat n) = c # cs"
    using str_nat_nonempty [of "nat n"] by (cases "str_nat (nat n)") auto
  have "is_digit c" using hd_str_nat_digit [of "nat n"] cs by simp
  then have "c \<noteq> CHR ''-''" "c \<noteq> CHR ''+''" by (auto simp: is_digit_def)
  with False cs show ?thesis by (simp add: zfill_def str_int_def Let_def)
qed

lemma py_int_zfill_str_int: "py_int (zfill w (str_int n)) = Some n"
  by (simp add: zfill_str_int_cases py_int_padded_nat py_int_minus_padded)

lemma length_str_nat_le: "n < 10 ^ Suc k \<Longrightarrow> length (str_nat n) \<le> Suc k"
proof (induction k arbitrary: n)
  case 0
  then show ?case by (simp add: str_nat.simps [of n])
next
  case (Suc k)
  show ?case
  proof (cases "n < 10")
    case True
    then show ?thesis by (simp add: str_nat.simps [of n])
  next
    case False
    from Suc.prems have "n div 10 < 10 ^ Suc k" by (simp add: less_mult_imp_div_less)
    from Suc.IH [OF this] False show ?thesis by (simp add: str_nat.simps [of n])
  qed
qed

lemma length_str_nat_gt: "10 ^ k \<le> n \<Longrightarrow> k < length (str_nat n)"
proof (induction k arbitrary: n)
  case 0
  then show ?case using str_nat_nonempty [of n] by simp
next
  case (Suc k)
  have p: "(1::nat) \<le> 10 ^ k" by simp
  from Suc.prems have q: "10 * 10 ^ k \<le> n" by simp
  from p q have ge: "\<not> n < 10" by linarith
  from Suc.prems have "10 ^ k * 10 \<le> n" by (simp add: mult.commute)
  then have "10 ^ k \<le> n div 10" by (simp add: less_eq_div_iff_mult_less_eq)
  from Suc.IH [OF this] ge show ?case by (simp add: str_nat.simps [of n])
qed

lemma length_zfill: "length (zfill w s) = max w (length s)"
  by (auto simp: zfill_def Let_def split: list.splits)

lemma zfill_width4:
  assumes "- 1000 < n" "n < 10000"
  shows "length (zfill 4 (str_int n)) = 4"
proof (cases "n < 0")
  case True
  with assms have "nat (- n) < 10 ^ Suc 2" by simp
  from length_str_nat_le [OF this] True show ?thesis
    by (simp add: length_zfill str_int_def)
next
  case False
  with assms have "nat n < 10 ^ Suc 3" by simp
  from length_str_nat_le [OF this] False show ?thesis
    by (simp add: length_zfill str_int_def)
qed

lemma zfill_unchanged:
  assumes "10000 \<le> n"
  shows "zfill 4 (str_int n) = str_int n" "4 < length (str_int n)"
proof -
  from assms have "10 ^ 4 \<le> nat n" by simp
  from length_str_nat_gt [OF this] assms show "4 < length (str_int n)"
    by (simp add: str_int_def)
  then show "zfill 4 (str_int n) = str_int n" by (simp add: zfill_def)
qed

subsection \<open>The parser against the grammar of integer tokens\<close>

lemma inj_of_char_nat: "inj (of_char :: char \<Rightarrow> nat)"
  by (rule injI) simp

lemma is_space_whitespace: "is_space c \<longleftrightarrow> c \<in> whitespace"
proof -
  have "(of_char ` whitespace :: nat set) = {9, 10, 11, 12, 13, 32, 133, 160}"
    by (simp add: whitespace_def)
  then have "is_space c \<longleftrightarrow> (of_char c :: nat) \<in> of_char ` whitespace"
    by (simp add: is_space_def)
  also have "\<dots> \<longleftrightarrow> c \<in> whitespace"
    by (rule inj_image_mem_iff [OF inj_of_char_nat])
  finally show ?thesis .
qed

lemma is_digit_chars: "is_digit c \<longleftrightarrow> c \<in> set ''0123456789''"
proof -
  have "(of_char ` set ''0123456789'' :: nat set) = {48, 49, 50, 51, 52, 53, 54, 55, 56, 57}"
    by simp
  also have "\<dots> = {n::nat. 48 \<le> n \<and> n \<le> 57}"
    by (rule set_eqI) (simp, arith)
  finally have "is_digit c \<longleftrightarrow> (of_char c :: nat) \<in> of_char ` set ''0123456789''"
    by (simp add: is_digit_def)
  also have "\<dots> \<longleftrightarrow> c \<in> set ''0123456789''"
    by (rule inj_image_mem_iff [OF inj_of_char_nat])
  finally show ?thesis .
qed

lemma digitpart_head: "digitpart s \<Longrightarrow> s \<noteq> [] \<and> is_digit (hd s)"
  by (induction rule: digitpart.induct) (simp_all add: is_digit_chars)

lemma digitpart_digits_ok: "digitpart s \<Longrightarrow> digits_ok s"
proof (induction rule: digitpart.induct)
  case (digit c)
  then show ?case by (simp add: is_digit_chars)
next
  case (next_digit c s)
  from digitpart_head [OF next_digit(2)] obtain d cs where s: "s = d # cs" and d: "is_digit d"
    by (cases s) auto
  from d have "d \<noteq> CHR ''_''" by (rule is_digit_not_underscore)
  with next_digit s show ?case by (simp add: is_digit_chars)
next
  case (underscore c s)
  then show ?case by (simp add: is_digit_chars)
qed

lemma digits_ok_digitpart: "digits_ok s \<Longrightarrow> digitpart s"
proof (induction s rule: digits_ok.induct)
  case 1
  then show ?case by simp
next
  case (2 c)
  then show ?case by (simp add: digitpart.digit is_digit_chars)
next
  case (3 c d cs)
  show ?case
  proof (cases "d = CHR ''_''")
    case True
    with 3 have "is_digit c" "digitpart cs" by simp_all
    with True show ?thesis by (simp add: digitpart.underscore is_digit_chars)
  next
    case False
    with 3 have "is_digit c" "digitpart (d # cs)" by simp_all
    then show ?thesis by (simp add: digitpart.next_digit is_digit_chars)
  qed
qed

lemma char_of_digit_val: "is_digit d \<Longrightarrow> char_of (48 + digit_val d) = d"
  by (simp add: is_digit_def digit_val_def)

lemma digit_val_less: "is_digit d \<Longrightarrow> digit_val d < 10"
  by (auto simp: is_digit_def digit_val_def)

lemma str_nat_snoc:
  assumes "0 < v" "d < 10"
  shows "str_nat (10 * v + d) = str_nat v @ [char_of (48 + d)]"
proof -
  from assms have "\<not> 10 * v + d < 10" by simp
  moreover from assms have "(10 * v + d) div 10 = v" "(10 * v + d) mod 10 = d" by simp_all
  ultimately show ?thesis by (simp add: str_nat.simps [of "10 * v + d"])
qed

lemma str_nat_zero: "str_nat 0 = ''0''"
  using char_of_digit_val [OF is_digit_zero]
  by (simp add: str_nat.simps [of 0] digit_val_def)

lemma str_nat_small: "d < 10 \<Longrightarrow> str_nat d = [char_of (48 + d)]"
  by (simp add: str_nat.simps [of d])

lemma digits_numeral:
  "list_all is_digit ds \<Longrightarrow> ds \<noteq> [] \<Longrightarrow>
   \<exists>k. ds = replicate k CHR ''0'' @ str_nat (foldl (\<lambda>a c. 10 * a + digit_val c) 0 ds)"
proof (induction ds rule: rev_induct)
  case Nil
  then show ?case by simp
next
  case (snoc d ds)
  let ?f = "\<lambda>a c. 10 * a + digit_val c"
  from snoc.prems have d: "is_digit d" and all: "list_all is_digit ds" by simp_all
  note dv = digit_val_less [OF d] char_of_digit_val [OF d]
  show ?case
  proof (cases "ds = []")
    case True
    have v: "foldl ?f 0 (ds @ [d]) = digit_val d"
      using True by simp
    have "str_nat (digit_val d) = [d]"
      using dv by (simp add: str_nat_small)
    then have "ds @ [d] = replicate 0 CHR ''0'' @ str_nat (foldl ?f 0 (ds @ [d]))"
      unfolding v using True by simp
    then show ?thesis by (rule exI)
  next
    case False
    from snoc.IH [OF all False] obtain k where
      k: "ds = replicate k CHR ''0'' @ str_nat (foldl ?f 0 ds)" ..
    show ?thesis
    proof (cases "foldl ?f 0 ds = 0")
      case True
      with k have "ds = replicate (Suc k) CHR ''0''"
        by (simp add: str_nat_zero replicate_append_same)
      then have "ds @ [d] = replicate (Suc k) CHR ''0'' @ str_nat (foldl ?f 0 (ds @ [d]))"
        using True dv by (simp add: str_nat_small)
      then show ?thesis by (rule exI)
    next
      case pos: False
      then have "str_nat (foldl ?f 0 (ds @ [d])) = str_nat (foldl ?f 0 ds) @ [d]"
        using dv by (simp add: str_nat_snoc)
      with k have "ds @ [d] = replicate k CHR ''0'' @ str_nat (foldl ?f 0 (ds @ [d]))"
        by simp
      then show ?thesis by (rule exI)
    qed
  qed
qed

lemma digits_ok_filter:
  "digits_ok s \<Longrightarrow>
   list_all is_digit (filter (\<lambda>c. c \<noteq> CHR ''_'') s) \<and> filter (\<lambda>c. c \<noteq> CHR ''_'') s \<noteq> []"
  by (induction s rule: digits_ok.induct) (auto simp: is_digit_not_underscore)

lemma numeral_of_digits_value:
  assumes "digits_ok s"
  shows "numeral_of s m \<longleftrightarrow> digits_value s = m"
proof
  assume "numeral_of s m"
  then obtain k where "filter (\<lambda>c. c \<noteq> CHR ''_'') s = replicate k CHR ''0'' @ str_nat m"
    unfolding numeral_of_def ..
  then have "digits_value s =
      foldl (\<lambda>a c. 10 * a + digit_val c) 0 (replicate k CHR ''0'' @ str_nat m)"
    by (simp only: digits_value_def)
  also have "\<dots> = m"
    by (simp only: foldl_zeros foldl_str_nat)
  finally show "digits_value s = m" .
next
  assume "digits_value s = m"
  with digits_numeral [of "filter (\<lambda>c. c \<noteq> CHR ''_'') s"] digits_ok_filter [OF assms]
  show "numeral_of s m"
    by (simp add: numeral_of_def digits_value_def)
qed

lemma py_int_digits_spec:
  "py_int_digits s = Some v \<longleftrightarrow> digitpart s \<and> (\<exists>m. numeral_of s m \<and> v = int m)"
proof (cases "digits_ok s")
  case True
  then have "digitpart s" by (rule digits_ok_digitpart)
  with True show ?thesis
    by (auto simp: py_int_digits_def numeral_of_digits_value)
next
  case False
  then have "\<not> digitpart s" using digitpart_digits_ok by blast
  with False show ?thesis by (simp add: py_int_digits_def)
qed

lemma strip_decomp:
  "\<exists>l r. t = l @ strip t @ r \<and> list_all is_space l \<and> list_all is_space r"
proof -
  let ?u = "dropWhile is_space t"
  have t: "t = takeWhile is_space t @ ?u" by simp
  have "?u = rev (takeWhile is_space (rev ?u) @ dropWhile is_space (rev ?u))"
    by (simp only: takeWhile_dropWhile_id rev_rev_ident)
  then have u: "?u = strip t @ rev (takeWhile is_space (rev ?u))"
    by (simp only: rev_append strip_def)
  have a: "list_all is_space (takeWhile is_space t)"
    by (auto simp: list_all_iff dest: set_takeWhileD)
  have b: "list_all is_space (rev (takeWhile is_space (rev ?u)))"
    by (auto simp: list_all_iff dest: set_takeWhileD)
  from t u have "t = takeWhile is_space t @ strip t @ rev (takeWhile is_space (rev ?u))"
    by simp
  with a b show ?thesis by blast
qed

lemma strip_pad:
  assumes "list_all is_space l" "list_all is_space r" "m \<noteq> []"
    and "\<not> is_space (hd m)" "\<not> is_space (last m)"
  shows "strip (l @ m @ r) = m"
proof -
  have "dropWhile is_space (l @ m @ r) = dropWhile is_space (m @ r)"
    using assms(1) by (intro dropWhile_append2) (simp add: list_all_iff)
  also from assms(3,4) have "\<dots> = m @ r" by (cases m) simp_all
  finally have a: "dropWhile is_space (l @ m @ r) = m @ r" .
  have "dropWhile is_space (rev r @ rev m) = dropWhile is_space (rev m)"
    using assms(2) by (intro dropWhile_append2) (simp add: list_all_iff)
  also from assms(3,5) have "\<dots> = rev m"
    by (cases "rev m") (simp_all add: hd_rev)
  finally have b: "dropWhile is_space (rev (m @ r)) = rev m" by simp
  show ?thesis by (simp only: strip_def a b rev_rev_ident)
qed

lemma digitpart_last: "digitpart s \<Longrightarrow> is_digit (last s)"
  by (induction rule: digitpart.induct) (auto simp: is_digit_chars dest: digitpart_head)

lemma int_token_py_int:
  assumes "int_token t n"
  shows "py_int t = Some n"
proof -
  from assms obtain l sg ds r m where t: "t = l @ sg @ ds @ r"
    and l: "set l \<subseteq> whitespace" and r: "set r \<subseteq> whitespace"
    and ds: "digitpart ds" "numeral_of ds m"
    and sg: "sg = [] \<and> n = int m \<or> sg = ''+'' \<and> n = int m \<or> sg = ''-'' \<and> n = - int m"
    unfolding int_token_def by blast
  from l r have sp: "list_all is_space l" "list_all is_space r"
    by (auto simp: list_all_iff is_space_whitespace)
  from digitpart_head [OF ds(1)] obtain d cs where dcs: "ds = d # cs" and d: "is_digit d"
    by (cases ds) auto
  have v: "py_int_digits ds = Some (int m)"
    using ds by (simp add: py_int_digits_spec)
  have nsl: "\<not> is_space (last (sg @ ds))"
    using digitpart_last [OF ds(1)] dcs by (simp add: is_digit_not_space)
  have sgn: "\<not> is_space CHR ''+''" "\<not> is_space CHR ''-''"
    by (simp_all add: is_space_def)
  have nsh: "\<not> is_space (hd (sg @ ds))"
    using sg dcs is_digit_not_space [OF d] sgn by auto
  have "strip (l @ (sg @ ds) @ r) = sg @ ds"
    using sp nsh nsl dcs by (intro strip_pad) simp_all
  then have st: "strip t = sg @ ds" by (simp add: t)
  from d have dd: "d \<noteq> CHR ''-''" "d \<noteq> CHR ''+''" by (auto simp: is_digit_def)
  from sg show ?thesis
  proof (elim disjE conjE)
    assume "sg = []" "n = int m"
    with st dcs dd v show ?thesis by (simp add: py_int_def)
  next
    assume "sg = ''+''" "n = int m"
    with st v show ?thesis by (simp add: py_int_def)
  next
    assume "sg = ''-''" "n = - int m"
    with st v show ?thesis by (simp add: py_int_def)
  qed
qed

lemma py_int_int_token:
  assumes "py_int t = Some n"
  shows "int_token t n"
proof -
  from strip_decomp [of t] obtain l r where t: "t = l @ strip t @ r"
    and sp: "list_all is_space l" "list_all is_space r" by blast
  from sp have ws: "set l \<subseteq> whitespace" "set r \<subseteq> whitespace"
    by (auto simp: list_all_iff is_space_whitespace)
  from assms obtain c cs where s: "strip t = c # cs"
    by (cases "strip t") (simp_all add: py_int_def)
  consider (minus) "c = CHR ''-''" | (plus) "c = CHR ''+''"
    | (none) "c \<noteq> CHR ''-''" "c \<noteq> CHR ''+''" by blast
  then show ?thesis
  proof cases
    case minus
    with assms s obtain v where "py_int_digits cs = Some v" "n = - v"
      by (auto simp: py_int_def)
    then obtain m where "digitpart cs" "numeral_of cs m" "n = - int m"
      by (auto simp: py_int_digits_spec)
    moreover have "t = l @ ''-'' @ cs @ r" using t s minus by simp
    ultimately show ?thesis using ws unfolding int_token_def by blast
  next
    case plus
    with assms s have "py_int_digits cs = Some n"
      by (simp add: py_int_def)
    then obtain m where "digitpart cs" "numeral_of cs m" "n = int m"
      by (auto simp: py_int_digits_spec)
    moreover have "t = l @ ''+'' @ cs @ r" using t s plus by simp
    ultimately show ?thesis using ws unfolding int_token_def by blast
  next
    case none
    with assms s have "py_int_digits (c # cs) = Some n"
      by (simp add: py_int_def)
    then obtain m where "digitpart (c # cs)" "numeral_of (c # cs) m" "n = int m"
      by (auto simp: py_int_digits_spec)
    moreover have "t = l @ [] @ (c # cs) @ r" using t s by simp
    ultimately show ?thesis using ws unfolding int_token_def by blast
  qed
qed

lemma py_int_iff_int_token: "py_int t = Some n \<longleftrightarrow> int_token t n"
  using py_int_int_token int_token_py_int by blast

section \<open>Properties of the reference allocator\<close>

lemma split_on_nonempty: "split_on sep s \<noteq> []"
  by (induction s) (auto split: list.splits)

lemma split_on_no_sep: "sep \<notin> set s \<Longrightarrow> split_on sep s = [s]"
  by (induction s) auto

lemma length_split_on: "length (split_on sep s) = Suc (length (filter (\<lambda>c. c = sep) s))"
  by (induction s) (auto split: list.splits)

lemma last_split_on_Cons:
  "last (split_on sep (c # s)) =
     (if c = sep \<or> sep \<in> set s then last (split_on sep s) else c # s)"
proof (cases "c = sep")
  case True
  then show ?thesis by (simp add: split_on_nonempty)
next
  case False
  show ?thesis
  proof (cases "sep \<in> set s")
    case True
    then have "filter (\<lambda>c. c = sep) s \<noteq> []"
      by (auto simp: filter_empty_conv)
    then have "2 \<le> length (split_on sep s)"
      by (cases "filter (\<lambda>c. c = sep) s") (simp_all add: length_split_on)
    then obtain t u ts where "split_on sep s = t # u # ts"
      by (cases "split_on sep s"; cases "tl (split_on sep s)") auto
    with False True show ?thesis by simp
  next
    case no: False
    with False show ?thesis by (simp add: split_on_no_sep)
  qed
qed

lemma last_split_on_append:
  "last (split_on sep (a @ sep # t)) = last (split_on sep t)"
proof (induction a)
  case Nil
  then show ?case by (simp add: split_on_nonempty)
next
  case (Cons c a)
  have "last (split_on sep (c # a @ sep # t)) = last (split_on sep (a @ sep # t))"
    by (simp only: last_split_on_Cons) simp
  with Cons show ?case by simp
qed

lemma last_split_on_suffix:
  "sep \<notin> set t \<Longrightarrow> last (split_on sep (a @ sep # t)) = t"
  by (simp add: last_split_on_append split_on_no_sep)

lemma last_split_on_last_segment: "last (split_on CHR ''/'' r) = last_segment r"
proof (induction r)
  case Nil
  then show ?case by (simp add: last_segment_def)
next
  case (Cons c r)
  let ?P = "\<lambda>c. c \<noteq> CHR ''/''"
  show ?case
  proof (cases "CHR ''/'' \<in> set r")
    case True
    then have "takeWhile ?P (rev r @ [c]) = takeWhile ?P (rev r)"
      by (intro takeWhile_append1 [of "CHR ''/''"]) simp_all
    then have "last_segment (c # r) = last_segment r"
      by (simp add: last_segment_def)
    moreover have "last (split_on CHR ''/'' (c # r)) = last (split_on CHR ''/'' r)"
      using True by (simp only: last_split_on_Cons) simp
    ultimately show ?thesis using Cons by simp
  next
    case False
    then have "takeWhile ?P (rev r @ [c]) = rev r @ takeWhile ?P [c]"
      by (intro takeWhile_append2) auto
    then have "last_segment (c # r) = (if c = CHR ''/'' then r else c # r)"
      by (simp add: last_segment_def)
    moreover have "last (split_on CHR ''/'' (c # r)) = (if c = CHR ''/'' then r else c # r)"
      using False by (simp only: last_split_on_Cons) (simp add: split_on_no_sep)
    ultimately show ?thesis by simp
  qed
qed

lemma sql_like_percent_empty: "sql_like r t \<Longrightarrow> sql_like (CHR ''%'' # r) t"
  by (cases t) simp_all

lemma sql_like_percent_all: "sql_like ''%'' s"
  by (induction s) simp_all

lemma sql_like_self: "sql_like q s \<Longrightarrow> sql_like (p @ q) (p @ s)"
proof (induction p)
  case Nil
  then show ?case by simp
next
  case (Cons c p)
  then show ?case by (simp add: sql_like_percent_empty)
qed

lemma sql_like_percent_skip: "sql_like (CHR ''%'' # q) s \<Longrightarrow> sql_like (CHR ''%'' # q) (a @ s)"
  by (induction a) simp_all

lemma sql_like_contains: "sql_like (CHR ''%'' # p @ ''%'') (a @ p @ b)"
  by (rule sql_like_percent_skip, rule sql_like_percent_empty, rule sql_like_self,
      rule sql_like_percent_all)

text \<open>
  A pattern \<open>%p%\<close> whose \<open>p\<close> holds no wildcard matches the strings that contain
  \<open>p\<close>.
\<close>

lemma sql_like_literal:
  "CHR ''%'' \<notin> set p \<Longrightarrow> CHR ''_'' \<notin> set p \<Longrightarrow>
   sql_like (p @ q) s \<longleftrightarrow> (\<exists>t. s = p @ t \<and> sql_like q t)"
proof (induction p arbitrary: s)
  case Nil
  then show ?case by simp
next
  case (Cons c p)
  then show ?case by (cases s) auto
qed

lemma sql_like_percent:
  "sql_like (CHR ''%'' # q) s \<longleftrightarrow> (\<exists>a t. s = a @ t \<and> sql_like q t)"
proof (induction s)
  case Nil
  then show ?case by simp
next
  case (Cons c s)
  show ?case
  proof
    assume "sql_like (CHR ''%'' # q) (c # s)"
    then consider "sql_like q (c # s)" | "sql_like (CHR ''%'' # q) s" by auto
    then show "\<exists>a t. c # s = a @ t \<and> sql_like q t"
    proof cases
      case 1
      then have "c # s = [] @ (c # s) \<and> sql_like q (c # s)" by simp
      then show ?thesis by blast
    next
      case 2
      with Cons obtain a t where "s = a @ t" "sql_like q t" by blast
      then have "c # s = (c # a) @ t \<and> sql_like q t" by simp
      then show ?thesis by blast
    qed
  next
    assume "\<exists>a t. c # s = a @ t \<and> sql_like q t"
    then obtain a t where at: "c # s = a @ t" "sql_like q t" by blast
    show "sql_like (CHR ''%'' # q) (c # s)"
    proof (cases a)
      case Nil
      with at have "sql_like q (c # s)" by simp
      then show ?thesis by (rule sql_like_percent_empty)
    next
      case (Cons c' a')
      with at have "s = a' @ t" by simp
      with at(2) Cons.IH have "sql_like (CHR ''%'' # q) s" by blast
      then show ?thesis by simp
    qed
  qed
qed

lemma sql_like_contains_iff:
  assumes "CHR ''%'' \<notin> set p" "CHR ''_'' \<notin> set p"
  shows "sql_like (CHR ''%'' # p @ ''%'') s \<longleftrightarrow> (\<exists>a b. s = a @ p @ b)"
  unfolding sql_like_percent sql_like_literal [OF assms]
  by (simp add: sql_like_percent_all) blast

lemma period_pattern_contains:
  assumes "CHR ''%'' \<notin> set key" "CHR ''_'' \<notin> set key"
  shows "sql_like (''%/'' @ key @ ''/%'') r \<longleftrightarrow> (\<exists>a b. r = a @ ''/'' @ key @ ''/'' @ b)"
  using sql_like_contains_iff [of "''/'' @ key @ ''/''" r] assms by simp

lemma str_nat_no_slash: "CHR ''/'' \<notin> set (str_nat n)"
  using str_nat_digits [of n] by (auto simp: list_all_iff is_digit_def)

lemma zfill_str_int_no_slash: "CHR ''/'' \<notin> set (zfill w (str_int n))"
  using str_nat_no_slash by (simp add: zfill_str_int_cases)

lemma collect_nums_foldl:
  "foldl (\<lambda>nums r. case py_int (last (split_on CHR ''/'' r)) of
                      Some n \<Rightarrow> nums @ [n] | None \<Rightarrow> nums) acc rows =
   acc @ List.map_filter (\<lambda>r. py_int (last (split_on CHR ''/'' r))) rows"
  by (induction rows arbitrary: acc) (simp_all add: List.map_filter_simps split: option.splits)

lemma collect_nums_map_filter:
  "collect_nums rows = List.map_filter (\<lambda>r. py_int (last (split_on CHR ''/'' r))) rows"
  by (simp add: collect_nums_def collect_nums_foldl)

lemma period_numbers_code:
  "period_numbers key refs =
     {n. \<exists>r \<in> set refs. sql_like (''%/'' @ key @ ''/%'') r \<and>
                         py_int (last (split_on CHR ''/'' r)) = Some n}"
  by (simp only: period_numbers_def py_int_iff_int_token last_split_on_last_segment)

lemma set_collect_nums:
  "set (collect_nums (filter (sql_like (''%/'' @ key @ ''/%'')) refs)) = period_numbers key refs"
proof -
  have "set (List.map_filter g (filter P refs)) = {n. \<exists>r \<in> set refs. P r \<and> g r = Some n}"
    for g :: "string \<Rightarrow> int option" and P
    by (induction refs) (auto simp: List.map_filter_simps split: option.splits)
  then show ?thesis
    by (simp only: collect_nums_map_filter period_numbers_code)
qed

lemma py_max_Max: "nums \<noteq> [] \<Longrightarrow> py_max nums = Max (set nums)"
proof -
  assume "nums \<noteq> []"
  then obtain x xs where n: "nums = x # xs" by (cases nums) auto
  have "foldl max x xs = fold max xs x"
    by (simp add: foldl_conv_fold max.commute)
  also have "\<dots> = Max (set (x # xs))"
    by (rule Max.set_eq_fold [symmetric])
  finally show ?thesis by (simp only: py_max_def n list.sel)
qed

lemma next_num_of_spec: "next_num_of nums = spec_next_number (set nums)"
  by (simp add: next_num_of_def spec_next_number_def py_max_Max)

lemma get_next_invoice_ref_spec:
  "get_next_invoice_ref mk invs =
     ''BE/KNG/PMSG/QTN/'' @ mk @ ''/'' @
       zfill 4 (str_int (spec_next_number (period_numbers mk (map invoice_ref invs))))"
  by (simp only: get_next_invoice_ref_def Let_def next_num_of_spec set_collect_nums)

lemma get_next_agreement_no_spec:
  "get_next_agreement_no yr ags =
     ''AG/SG/APDCL/'' @ yr @ ''/'' @
       zfill 4 (str_int (spec_next_number (period_numbers yr (map agreement_no ags))))"
  by (simp only: get_next_agreement_no_def Let_def next_num_of_spec set_collect_nums)

lemma zfill_one: "zfill 4 (str_int 1) = ''0001''"
  by code_simp

lemma zfill_four: "zfill 4 (str_int 4) = ''0004''"
  by code_simp

lemma spec_next_number_empty: "spec_next_number {} = 1"
  by (simp add: spec_next_number_def)

lemma spec_next_number_1_3: "spec_next_number {1, 3} = 4"
  by (simp add: spec_next_number_def)

lemma finite_period_numbers: "finite (period_numbers key refs)"
  by (simp only: set_collect_nums [symmetric] finite_set)

lemma spec_next_number_insert:
  assumes "finite S"
  shows "spec_next_number (insert (spec_next_number S) S) = spec_next_number S + 1"
proof -
  have "Max (insert (spec_next_number S) S) = spec_next_number S"
  proof (rule Max_eqI)
    show "finite (insert (spec_next_number S) S)" using assms by simp
    show "spec_next_number S \<in> insert (spec_next_number S) S" by simp
    fix y assume y: "y \<in> insert (spec_next_number S) S"
    show "y \<le> spec_next_number S"
    proof (cases "y \<in> S")
      case True
      then have "S \<noteq> {}" by auto
      moreover have "y \<le> Max S" using assms True by (rule Max_ge)
      ultimately show ?thesis by (simp add: spec_next_number_def)
    next
      case False
      with y show ?thesis by simp
    qed
  qed
  then show ?thesis by (simp add: spec_next_number_def [of "insert _ _"])
qed

lemma period_numbers_snoc:
  assumes "sql_like (''%/'' @ key @ ''/%'') r" "py_int (last (split_on CHR ''/'' r)) = Some n"
  shows "period_numbers key (refs @ [r]) = insert n (period_numbers key refs)"
  using assms by (auto simp: period_numbers_code)

lemma reference_segment:
  "last (split_on CHR ''/'' (pre @ key @ ''/'' @ zfill 4 (str_int n))) = zfill 4 (str_int n)"
  using last_split_on_suffix [OF zfill_str_int_no_slash, of "pre @ key" 4 n] by simp

lemma reference_matches_period:
  "sql_like (''%/'' @ key @ ''/%'') ((pre @ ''/'') @ key @ ''/'' @ seg)"
  using sql_like_contains [of "''/'' @ key @ ''/''" pre seg] by simp

lemma example_period_numbers:
  "period_numbers ''01/25''
     (map invoice_ref (map invoice_with_ref
        [''BE/KNG/PMSG/QTN/01/25/0001'', ''BE/KNG/PMSG/QTN/01/25/0003'',
         ''BE/KNG/PMSG/QTN/12/24/0009'', ''BE/KNG/PMSG/QTN/01/25/draft''])) = {1, 3}"
proof -
  have "collect_nums (filter (sql_like (''%/'' @ ''01/25'' @ ''/%''))
          (map invoice_ref (map invoice_with_ref
            [''BE/KNG/PMSG/QTN/01/25/0001'', ''BE/KNG/PMSG/QTN/01/25/0003'',
             ''BE/KNG/PMSG/QTN/12/24/0009'', ''BE/KNG/PMSG/QTN/01/25/draft'']))) = [1, 3]"
    by code_simp
  then show ?thesis
    by (simp only: set_collect_nums [symmetric]) simp
qed

lemma example_period_numbers_9999:
  "period_numbers ''01/25''
     (map invoice_ref [invoice_with_ref ''BE/KNG/PMSG/QTN/01/25/9999'']) = {9999}"
proof -
  have "collect_nums (filter (sql_like (''%/'' @ ''01/25'' @ ''/%''))
          (map invoice_ref [invoice_with_ref ''BE/KNG/PMSG/QTN/01/25/9999''])) = [9999]"
    by code_simp
  then show ?thesis
    by (simp only: set_collect_nums [symmetric]) simp
qed

section \<open>Properties of the history query\<close>

lemma set_select_page:
  "set (data (select_page fs limit offset rows)) \<subseteq> {r \<in> set rows. \<forall>f \<in> set fs. f r}"
proof -
  let ?m = "filter (\<lambda>r. list_all (\<lambda>f. f r) fs) rows"
  have "set (take limit (drop offset (rev (sort_key created_at ?m)))) \<subseteq>
          set (rev (sort_key created_at ?m))"
    by (meson set_take_subset set_drop_subset subset_trans)
  also have "\<dots> = set ?m" by simp
  also have "\<dots> = {r \<in> set rows. \<forall>f \<in> set fs. f r}"
    by (auto simp: list_all_iff)
  finally show ?thesis by (simp add: select_page_def Let_def)
qed

lemma set_select_page_all:
  "set (data (select_page fs (length rows) 0 rows)) = {r \<in> set rows. \<forall>f \<in> set fs. f r}"
proof -
  let ?m = "filter (\<lambda>r. list_all (\<lambda>f. f r) fs) rows"
  have "length (rev (sort_key created_at ?m)) \<le> length rows" by simp
  then have "take (length rows) (rev (sort_key created_at ?m)) = rev (sort_key created_at ?m)"
    by (rule take_all)
  then show ?thesis
    by (auto simp: select_page_def Let_def list_all_iff)
qed

lemma fetch_invoices_scoped:
  assumes "rl \<noteq> ''admin''" "r \<in> set (data (fetch_invoices rl uname search limit offset invs))"
  shows "created_by r = uname" "r \<in> set invs"
proof -
  have "set (data (fetch_invoices rl uname search limit offset invs)) \<subseteq>
          {r \<in> set invs. created_by r = uname}"
  proof (cases search)
    case None
    with assms(1) set_select_page [of "[\<lambda>r. created_by r = uname]" limit offset invs]
    show ?thesis by (auto simp: fetch_invoices_def Let_def)
  next
    case (Some s)
    with assms(1) set_select_page [of "[\<lambda>r. created_by r = uname]" limit offset invs]
      set_select_page [of "[\<lambda>r. created_by r = uname, or_ilike invoice_ref s]" limit offset invs]
    show ?thesis by (auto simp: fetch_invoices_def Let_def)
  qed
  with assms(2) show "created_by r = uname" "r \<in> set invs" by auto
qed

lemma fetch_agreements_scoped:
  assumes "rl \<noteq> ''admin''" "r \<in> set (data (fetch_agreements rl uname search limit offset ags))"
  shows "created_by r = uname" "r \<in> set ags"
proof -
  have "set (data (fetch_agreements rl uname search limit offset ags)) \<subseteq>
          {r \<in> set ags. created_by r = uname}"
  proof (cases search)
    case None
    with assms(1) set_select_page [of "[\<lambda>r. created_by r = uname]" limit offset ags]
    show ?thesis by (auto simp: fetch_agreements_def Let_def)
  next
    case (Some s)
    with assms(1) set_select_page [of "[\<lambda>r. created_by r = uname]" limit offset ags]
      set_select_page [of "[\<lambda>r. created_by r = uname, or_ilike agreement_no s]" limit offset ags]
    show ?thesis by (auto simp: fetch_agreements_def Let_def)
  qed
  with assms(2) show "created_by r = uname" "r \<in> set ags" by auto
qed

lemma fetch_invoices_admin:
  "set (data (fetch_invoices ''admin'' uname search (length invs) 0 invs)) =
     {r \<in> set invs. \<forall>s. search = Some s \<and> s \<noteq> [] \<longrightarrow> or_ilike invoice_ref s r}"
  by (cases search) (auto simp: fetch_invoices_def Let_def set_select_page_all)

lemma fetch_agreements_admin:
  "set (data (fetch_agreements ''admin'' uname search (length ags) 0 ags)) =
     {r \<in> set ags. \<forall>s. search = Some s \<and> s \<noteq> [] \<longrightarrow> or_ilike agreement_no s r}"
  by (cases search) (auto simp: fetch_agreements_def Let_def set_select_page_all)

section \<open>Properties of the aggregations and of document generation\<close>

lemma totals_loop:
  "foldl (\<lambda>tot i. case py_float fl (amount i) of Inr x \<Rightarrow> fl_add fl tot x | Inl e \<Rightarrow> tot)
     acc rows =
   foldl (fl_add fl) acc (coercible_amounts fl rows)"
  by (induction rows arbitrary: acc)
     (simp_all add: coercible_amounts_def List.map_filter_simps split: sum.splits)

text \<open>
  The totals functions skip: the total is made of the amounts that coerce, and every
  row is counted.
\<close>

lemma calculate_invoice_totals_skips:
  "calculate_invoice_totals fl invs =
     \<lparr>records = length invs, total_amount = foldl (fl_add fl) 0 (coercible_amounts fl invs)\<rparr>"
  by (simp add: calculate_invoice_totals_def totals_loop)

lemma calculate_agreement_totals_skips:
  "calculate_agreement_totals fl ags =
     \<lparr>records = length ags, total_amount = foldl (fl_add fl) 0 (coercible_amounts fl ags)\<rparr>"
  by (simp add: calculate_agreement_totals_def totals_loop)

lemma coerce_amounts_raises:
  "i \<in> set invs \<Longrightarrow> isl (py_float fl (amount i)) \<Longrightarrow> isl (coerce_amounts fl invs)"
  by (induction invs) (auto split: sum.splits)

lemma coerce_amounts_returns:
  "(\<forall>i \<in> set invs. \<not> isl (py_float fl (amount i))) \<Longrightarrow>
   coerce_amounts fl invs = Inr (coercible_amounts fl invs)"
  by (induction invs)
     (auto simp: coercible_amounts_def List.map_filter_simps split: sum.splits)

lemma revenue_by_raises:
  "i \<in> set invs \<Longrightarrow> isl (py_float fl (amount i)) \<Longrightarrow> isl (revenue_by fl key series invs)"
  by (induction invs arbitrary: series) (auto split: sum.splits)

lemma get_revenue_kpis_empty:
  "fetch_invoices_in_range sd ed db = [] \<Longrightarrow>
   get_revenue_kpis fl sd ed db = Inr \<lparr>total_revenue = 0, total_invoices = 0, avg_value = 0\<rparr>"
  by (simp add: get_revenue_kpis_def py_sum_def)

text \<open>
  When every amount of the range coerces, \<open>get_revenue_kpis\<close> returns: the count is
  the number of invoices, and the average is 0 for no invoice and otherwise the
  rounded quotient of the total by the count.
\<close>

lemma get_revenue_kpis_returns:
  assumes "\<forall>i \<in> set (fetch_invoices_in_range sd ed db). \<not> isl (py_float fl (amount i))"
  shows "\<exists>k. get_revenue_kpis fl sd ed db = Inr k \<and>
             total_revenue k = py_sum fl (coercible_amounts fl (fetch_invoices_in_range sd ed db)) \<and>
             total_invoices k = length (fetch_invoices_in_range sd ed db) \<and>
             avg_value k =
               (if total_invoices k = 0 then 0
                else fl_round2 fl (fl_div fl (total_revenue k) (of_nat (total_invoices k))))"
  using coerce_amounts_returns [OF assms]
  by (simp add: get_revenue_kpis_def Let_def)

text \<open>
  The three analytics functions raise as soon as one amount of the range does not
  coerce.
\<close>

lemma analytics_raise:
  assumes "i \<in> set (fetch_invoices_in_range sd ed db)" "isl (py_float fl (amount i))"
  shows "isl (get_revenue_kpis fl sd ed db)"
    and "isl (get_daily_revenue_series fl sd ed db)"
    and "isl (get_staff_performance fl sd ed db)"
  using coerce_amounts_raises [OF assms]
    revenue_by_raises [OF assms, of "\<lambda>iv. take 10 (created_at iv)" "[]"]
    revenue_by_raises [OF assms, of created_by "[]"]
  by (auto simp: get_revenue_kpis_def get_daily_revenue_series_def get_staff_performance_def
      Let_def split: sum.splits)

lemma phase_split_loop:
  "map_of (foldl (\<lambda>split iv. AList.update (phase iv) (dict_get split (phase iv) 0 + 1) split)
             d invs) k =
     (if map_of d k = None \<and> filter (\<lambda>i. phase i = k) invs = [] then None
      else Some (dict_get d k 0 + length (filter (\<lambda>i. phase i = k) invs)))"
proof (induction invs arbitrary: d)
  case Nil
  then show ?case by (auto simp: dict_get_def)
next
  case (Cons i invs)
  show ?case
    by (simp only: foldl_Cons Cons.IH) (auto simp: update_conv' dict_get_def)
qed

lemma get_phase_split_count:
  assumes "k = ''Single Phase'' \<or> k = ''Three Phase''"
  shows "map_of (get_phase_split sd ed db) k =
           Some (length (filter (\<lambda>i. phase i = k) (fetch_invoices_in_range sd ed db)))"
  unfolding get_phase_split_def phase_split_loop
  using assms by (auto simp: dict_get_def)

lemma get_phase_split_empty:
  "fetch_invoices_in_range sd ed db = [] \<Longrightarrow>
   get_phase_split sd ed db = [(''Single Phase'', 0), (''Three Phase'', 0)]"
  by (simp add: get_phase_split_def)

lemma generate_documents_ok:
  assumes "in_customer_name form \<noteq> []" "in_phone form \<noteq> []"
  shows "\<exists>st' iv ag.
           generate_documents uname mk yr now form st = Inr st' \<and>
           invoices st' = invoices st @ [iv] \<and> agreements st' = agreements st @ [ag] \<and>
           phase iv = (if 5 \<le> in_capacity form then ''Three Phase'' else ''Single Phase'') \<and>
           amount iv = JNum (of_int (py_trunc (in_capacity form * of_int RATE_PER_KW))) \<and>
           phase ag = phase iv \<and> amount ag = amount iv \<and>
           capacity iv = in_capacity form \<and> capacity ag = in_capacity form \<and>
           created_by iv = uname \<and> created_by ag = uname \<and>
           invoice_ref iv = get_next_invoice_ref mk (invoices st) \<and>
           agreement_no ag = get_next_agreement_no yr (agreements st)"
  using assms
  by (simp add: generate_documents_def Let_def insert_invoice_def insert_agreement_def
        log_activity_def)

section \<open>The claims of the specification\<close>

text \<open>
  Claim C1, as the code has it. For a user that exists, is active and is not locked, a
  call with a wrong password returns \<open>None\<close>, increments \<open>failed_attempts\<close> and sets
  \<open>locked\<close> exactly when the incremented count is at least 3. While a user is
  locked, every call for that user returns \<open>None\<close> and leaves the table as it is,
  whatever the password. So three wrong passwords in a row for such a user with no
  earlier failure lock the account, and a fourth call returns \<open>None\<close> even with the
  right password. A call for an inactive user, or for a name that no row has, returns
  \<open>None\<close> and leaves the table, and with it every \<open>failed_attempts\<close>, as it is.
\<close>

theorem validate_login_lockout:
  "(get_user db n = Some u \<and> \<not> locked u \<and> active u \<and>
      \<not> verify_password H pw (password_hash u) \<longrightarrow>
      fst (validate_login H now db n pw) = None \<and>
      get_user (snd (validate_login H now db n pw)) n =
        Some (u\<lparr>failed_attempts := failed_attempts u + 1,
                locked := (3 \<le> failed_attempts u + 1)\<rparr>)) \<and>
   (get_user db n = Some u \<and> locked u \<longrightarrow> validate_login H now db n pw' = (None, db)) \<and>
   (get_user db n = Some u \<and> \<not> locked u \<and> active u \<and> failed_attempts u = 0 \<and>
      \<not> verify_password H p1 (password_hash u) \<and>
      \<not> verify_password H p2 (password_hash u) \<and>
      \<not> verify_password H p3 (password_hash u) \<and>
      db3 = foldl (apply_user_op H now) db
              [ValidateLogin n p1, ValidateLogin n p2, ValidateLogin n p3] \<longrightarrow>
      get_user db3 n = Some (u\<lparr>failed_attempts := 3, locked := True\<rparr>) \<and>
      validate_login H now db3 n pw' = (None, db3)) \<and>
   (get_user db n = Some u \<and> \<not> active u \<longrightarrow> validate_login H now db n pw' = (None, db)) \<and>
   (get_user db n = None \<longrightarrow> validate_login H now db n pw' = (None, db))"
proof -
  have a: "get_user db n = Some u \<and> \<not> locked u \<and> active u \<and>
      \<not> verify_password H pw (password_hash u) \<longrightarrow>
      fst (validate_login H now db n pw) = None \<and>
      get_user (snd (validate_login H now db n pw)) n =
        Some (u\<lparr>failed_attempts := failed_attempts u + 1,
                locked := (3 \<le> failed_attempts u + 1)\<rparr>)"
    using validate_login_wrong [of db n u H pw now] by blast
  have b: "get_user db n = Some u \<and> locked u \<longrightarrow> validate_login H now db n pw' = (None, db)"
    using validate_login_locked [of db n u H now pw'] by blast
  have c: "get_user db n = Some u \<and> \<not> locked u \<and> active u \<and> failed_attempts u = 0 \<and>
      \<not> verify_password H p1 (password_hash u) \<and>
      \<not> verify_password H p2 (password_hash u) \<and>
      \<not> verify_password H p3 (password_hash u) \<and>
      db3 = foldl (apply_user_op H now) db
              [ValidateLogin n p1, ValidateLogin n p2, ValidateLogin n p3] \<longrightarrow>
      get_user db3 n = Some (u\<lparr>failed_attempts := 3, locked := True\<rparr>) \<and>
      validate_login H now db3 n pw' = (None, db3)"
    using three_wrong_attempts(1) [of db n u H p1 p2 p3 db3 now]
      three_wrong_attempts(2) [of db n u H p1 p2 p3 db3 now pw']
    by blast
  have d: "get_user db n = Some u \<and> \<not> active u \<longrightarrow> validate_login H now db n pw' = (None, db)"
    using validate_login_inactive [of db n u H now pw'] by blast
  have e: "get_user db n = None \<longrightarrow> validate_login H now db n pw' = (None, db)"
    using validate_login_absent [of db n H now pw'] by blast
  from a b c d e show ?thesis by (intro conjI)
qed

theorem validate_login_lockout_witness:
  "get_user [admin_row, staff_row] ''asha'' = Some staff_row \<and>
   \<not> locked staff_row \<and> active staff_row \<and> failed_attempts staff_row = 0 \<and>
   \<not> verify_password rev ''guess'' (password_hash staff_row) \<and>
   fst (validate_login rev ''2025-01-10T09:00:00'' [admin_row, staff_row] ''asha'' ''guess'')
     = None \<and>
   get_user (snd (validate_login rev ''2025-01-10T09:00:00'' [admin_row, staff_row]
                    ''asha'' ''guess'')) ''asha''
     = Some (staff_row\<lparr>failed_attempts := 1, locked := False\<rparr>) \<and>
   get_user (foldl (apply_user_op rev ''2025-01-10T09:00:00'') [admin_row, staff_row]
               [ValidateLogin ''asha'' ''guess'', ValidateLogin ''asha'' ''guess'',
                ValidateLogin ''asha'' ''guess'']) ''asha''
     = Some (staff_row\<lparr>failed_attempts := 3, locked := True\<rparr>) \<and>
   fst (validate_login rev ''2025-01-10T09:00:00''
          (foldl (apply_user_op rev ''2025-01-10T09:00:00'') [admin_row, staff_row]
             [ValidateLogin ''asha'' ''guess'', ValidateLogin ''asha'' ''guess'',
              ValidateLogin ''asha'' ''guess'']) ''asha'' ''secret'') = None \<and>
   verify_password rev ''secret'' (password_hash staff_row) \<and>
   get_user [staff_row\<lparr>locked := True\<rparr>] ''asha'' = Some (staff_row\<lparr>locked := True\<rparr>) \<and>
   validate_login rev ''2025-01-10T09:00:00'' [staff_row\<lparr>locked := True\<rparr>] ''asha'' ''secret''
     = (None, [staff_row\<lparr>locked := True\<rparr>]) \<and>
   get_user [admin_row, inactive_row] ''ravi'' = Some inactive_row \<and>
   \<not> active inactive_row \<and>
   validate_login rev ''2025-01-10T09:00:00'' [admin_row, inactive_row] ''ravi'' ''secret''
     = (None, [admin_row, inactive_row]) \<and>
   get_user [admin_row, staff_row] ''nobody'' = None \<and>
   validate_login rev ''2025-01-10T09:00:00'' [admin_row, staff_row] ''nobody'' ''secret''
     = (None, [admin_row, staff_row])"
proof -
  have g: "get_user [admin_row, staff_row] ''asha'' = Some staff_row"
    by (simp add: get_user_def admin_row_def staff_row_def)
  have h: "\<not> locked staff_row" "active staff_row" "failed_attempts staff_row = 0"
    "\<not> verify_password rev ''guess'' (password_hash staff_row)"
    "verify_password rev ''secret'' (password_hash staff_row)"
    by (simp_all add: staff_row_def verify_password_def hash_password_def)
  have l: "get_user [staff_row\<lparr>locked := True\<rparr>] ''asha'' = Some (staff_row\<lparr>locked := True\<rparr>)"
    "locked (staff_row\<lparr>locked := True\<rparr>)"
    by (simp_all add: get_user_def staff_row_def)
  have i: "get_user [admin_row, inactive_row] ''ravi'' = Some inactive_row"
    "\<not> active inactive_row"
    by (simp_all add: get_user_def admin_row_def inactive_row_def)
  have k: "get_user [admin_row, staff_row] ''nobody'' = None"
    by (simp add: get_user_def admin_row_def staff_row_def)
  note t1 = validate_login_lockout [where db = "[admin_row, staff_row]" and n = "''asha''"
        and u = staff_row and H = rev and pw = "''guess''" and now = "''2025-01-10T09:00:00''"
        and pw' = "''secret''" and ?p1.0 = "''guess''" and ?p2.0 = "''guess''"
        and ?p3.0 = "''guess''"
        and ?db3.0 = "foldl (apply_user_op rev ''2025-01-10T09:00:00'') [admin_row, staff_row]
           [ValidateLogin ''asha'' ''guess'', ValidateLogin ''asha'' ''guess'',
            ValidateLogin ''asha'' ''guess'']"]
  note t2 = validate_login_lockout [where db = "[staff_row\<lparr>locked := True\<rparr>]" and n = "''asha''"
        and u = "staff_row\<lparr>locked := True\<rparr>" and H = rev and pw = "''guess''"
        and now = "''2025-01-10T09:00:00''" and pw' = "''secret''"]
  note t3 = validate_login_lockout [where db = "[admin_row, inactive_row]" and n = "''ravi''"
        and u = inactive_row and H = rev and now = "''2025-01-10T09:00:00''"
        and pw' = "''secret''"]
  note t4 = validate_login_lockout [where db = "[admin_row, staff_row]" and n = "''nobody''"
        and H = rev and now = "''2025-01-10T09:00:00''" and pw' = "''secret''"]
  have w1: "fst (validate_login rev ''2025-01-10T09:00:00'' [admin_row, staff_row] ''asha'' ''guess'')
              = None \<and>
            get_user (snd (validate_login rev ''2025-01-10T09:00:00'' [admin_row, staff_row]
                    ''asha'' ''guess'')) ''asha''
              = Some (staff_row\<lparr>failed_attempts := 1, locked := False\<rparr>)"
    using g h t1 [THEN conjunct1] by simp
  have w2: "get_user (foldl (apply_user_op rev ''2025-01-10T09:00:00'') [admin_row, staff_row]
               [ValidateLogin ''asha'' ''guess'', ValidateLogin ''asha'' ''guess'',
                ValidateLogin ''asha'' ''guess'']) ''asha''
              = Some (staff_row\<lparr>failed_attempts := 3, locked := True\<rparr>) \<and>
            fst (validate_login rev ''2025-01-10T09:00:00''
              (foldl (apply_user_op rev ''2025-01-10T09:00:00'') [admin_row, staff_row]
                [ValidateLogin ''asha'' ''guess'', ValidateLogin ''asha'' ''guess'',
                 ValidateLogin ''asha'' ''guess'']) ''asha'' ''secret'') = None"
    using g h t1 [THEN conjunct2, THEN conjunct2, THEN conjunct1] by simp
  have w3: "validate_login rev ''2025-01-10T09:00:00'' [staff_row\<lparr>locked := True\<rparr>]
              ''asha'' ''secret'' = (None, [staff_row\<lparr>locked := True\<rparr>])"
    using l t2 [THEN conjunct2, THEN conjunct1] by simp
  have w4: "validate_login rev ''2025-01-10T09:00:00'' [admin_row, inactive_row] ''ravi'' ''secret''
              = (None, [admin_row, inactive_row])"
    using i t3 [THEN conjunct2, THEN conjunct2, THEN conjunct2, THEN conjunct1] by simp
  have w5: "validate_login rev ''2025-01-10T09:00:00'' [admin_row, staff_row] ''nobody'' ''secret''
              = (None, [admin_row, staff_row])"
    using k t4 [THEN conjunct2, THEN conjunct2, THEN conjunct2, THEN conjunct2] by simp
  from g h(1,2,3,4) w1 [THEN conjunct1] w1 [THEN conjunct2] w2 [THEN conjunct1]
    w2 [THEN conjunct2] h(5) l(1) w3 i w4 k w5
  show ?thesis by (intro conjI)
qed

text \<open>
  Claim C1 as it is written speaks of every user. An inactive user is turned away
  before the password is looked at: a wrong password leaves \<open>failed_attempts\<close> at 0.
\<close>

theorem validate_login_inactive_counterexample:
  "get_user [inactive_row] ''ravi'' = Some inactive_row \<and>
   \<not> verify_password rev ''guess'' (password_hash inactive_row) \<and>
   failed_attempts inactive_row = 0 \<and>
   validate_login rev ''2025-01-10T09:00:00'' [inactive_row] ''ravi'' ''guess''
     = (None, [inactive_row])"
  by (simp add: validate_login_def get_user_def inactive_row_def verify_password_def
        hash_password_def)

text \<open>
  Claim C2, as the code has it. In a table whose ids are distinct, no operation but
  \<open>unlock_user\<close> turns the \<open>locked\<close> field of a row from true to false (rows keep
  their place and their id). \<open>unlock_user\<close> sets \<open>failed_attempts = 0\<close> and
  \<open>locked = false\<close> in the rows of the given id. After the unlock of an active user, a
  login with the right password succeeds and leaves \<open>failed_attempts\<close> at 0; after the
  unlock of an inactive user, a login returns \<open>None\<close> whatever the password and
  leaves the table as the unlock made it.
\<close>

theorem locked_monotonic_until_unlock:
  "(distinct (map uid db) \<and> \<not> is_unlock opn \<and> i < length db \<and> locked (db ! i) \<longrightarrow>
      i < length (apply_user_op H now db opn) \<and>
      uid (apply_user_op H now db opn ! i) = uid (db ! i) \<and>
      locked (apply_user_op H now db opn ! i)) \<and>
   (\<forall>r \<in> set (unlock_user db k). uid r = k \<longrightarrow> failed_attempts r = 0 \<and> \<not> locked r) \<and>
   (get_user db n = Some u \<longrightarrow>
      get_user (unlock_user db (uid u)) n = Some (u\<lparr>failed_attempts := 0, locked := False\<rparr>)) \<and>
   (get_user db n = Some u \<and> active u \<and> verify_password H pw (password_hash u) \<longrightarrow>
      fst (validate_login H now (unlock_user db (uid u)) n pw) = Some (username u, role u) \<and>
      get_user (snd (validate_login H now (unlock_user db (uid u)) n pw)) n =
        Some (u\<lparr>failed_attempts := 0, locked := False, last_login := Some now\<rparr>)) \<and>
   (get_user db n = Some u \<and> \<not> active u \<longrightarrow>
      validate_login H now (unlock_user db (uid u)) n pw' = (None, unlock_user db (uid u)))"
proof -
  have a: "distinct (map uid db) \<and> \<not> is_unlock opn \<and> i < length db \<and> locked (db ! i) \<longrightarrow>
        i < length (apply_user_op H now db opn) \<and>
        uid (apply_user_op H now db opn ! i) = uid (db ! i) \<and>
        locked (apply_user_op H now db opn ! i)"
  proof (intro impI)
    assume h: "distinct (map uid db) \<and> \<not> is_unlock opn \<and> i < length db \<and> locked (db ! i)"
    then have h': "distinct (map uid db)" "\<not> is_unlock opn" "i < length db" "locked (db ! i)"
      by simp_all
    show "i < length (apply_user_op H now db opn) \<and>
        uid (apply_user_op H now db opn ! i) = uid (db ! i) \<and>
        locked (apply_user_op H now db opn ! i)"
      using apply_user_op_locked_mono [OF h'(1,2,3), of H now] h'(3,4) by simp
  qed
  have b: "\<forall>r \<in> set (unlock_user db k). uid r = k \<longrightarrow> failed_attempts r = 0 \<and> \<not> locked r"
    using unlock_user_sets by blast
  have c: "get_user db n = Some u \<longrightarrow>
      get_user (unlock_user db (uid u)) n = Some (u\<lparr>failed_attempts := 0, locked := False\<rparr>)"
    using get_user_unlock [of db n u] by blast
  have d: "get_user db n = Some u \<and> active u \<and> verify_password H pw (password_hash u) \<longrightarrow>
      fst (validate_login H now (unlock_user db (uid u)) n pw) = Some (username u, role u) \<and>
      get_user (snd (validate_login H now (unlock_user db (uid u)) n pw)) n =
        Some (u\<lparr>failed_attempts := 0, locked := False, last_login := Some now\<rparr>)"
    using login_after_unlock [of db n u H pw now] by blast
  have e: "get_user db n = Some u \<and> \<not> active u \<longrightarrow>
      validate_login H now (unlock_user db (uid u)) n pw' = (None, unlock_user db (uid u))"
    using login_after_unlock_inactive [of db n u H now pw'] by blast
  from a b c d e show ?thesis by (intro conjI)
qed

theorem locked_monotonic_until_unlock_witness:
  "distinct (map uid [admin_row, staff_row\<lparr>failed_attempts := 3, locked := True\<rparr>]) \<and>
   \<not> is_unlock (ValidateLogin ''admin'' ''guess'') \<and>
   locked ([admin_row, staff_row\<lparr>failed_attempts := 3, locked := True\<rparr>] ! 1) \<and>
   locked (apply_user_op rev ''2025-01-10T09:00:00''
             [admin_row, staff_row\<lparr>failed_attempts := 3, locked := True\<rparr>]
             (ValidateLogin ''admin'' ''guess'') ! 1) \<and>
   staff_row\<lparr>failed_attempts := 0, locked := False\<rparr>
     \<in> set (unlock_user [admin_row, staff_row\<lparr>failed_attempts := 3, locked := True\<rparr>] 7) \<and>
   get_user [admin_row, staff_row\<lparr>failed_attempts := 3, locked := True\<rparr>] ''asha''
     = Some (staff_row\<lparr>failed_attempts := 3, locked := True\<rparr>) \<and>
   active (staff_row\<lparr>failed_attempts := 3, locked := True\<rparr>) \<and>
   verify_password rev ''secret''
     (password_hash (staff_row\<lparr>failed_attempts := 3, locked := True\<rparr>)) \<and>
   fst (validate_login rev ''2025-01-10T09:00:00''
          (unlock_user [admin_row, staff_row\<lparr>failed_attempts := 3, locked := True\<rparr>] 7)
          ''asha'' ''secret'') = Some (''asha'', ''staff'') \<and>
   get_user (snd (validate_login rev ''2025-01-10T09:00:00''
          (unlock_user [admin_row, staff_row\<lparr>failed_attempts := 3, locked := True\<rparr>] 7)
          ''asha'' ''secret'')) ''asha''
     = Some (staff_row\<lparr>failed_attempts := 0, locked := False,
                        last_login := Some ''2025-01-10T09:00:00''\<rparr>) \<and>
   get_user [admin_row, inactive_locked_row] ''ravi'' = Some inactive_locked_row \<and>
   \<not> active inactive_locked_row \<and>
   validate_login rev ''2025-01-10T09:00:00''
     (unlock_user [admin_row, inactive_locked_row] 9) ''ravi'' ''secret''
     = (None, unlock_user [admin_row, inactive_locked_row] 9)"
proof -
  let ?u = "staff_row\<lparr>failed_attempts := 3, locked := True\<rparr>"
  let ?db = "[admin_row, ?u]"
  have d: "distinct (map uid ?db)" "\<not> is_unlock (ValidateLogin ''admin'' ''guess'')"
    "(1::nat) < length ?db" "locked (?db ! 1)"
    by (simp_all add: admin_row_def staff_row_def)
  have g: "get_user ?db ''asha'' = Some ?u" "active ?u"
    "verify_password rev ''secret'' (password_hash ?u)" "uid ?u = 7"
    "username ?u = ''asha''" "role ?u = ''staff''"
    by (simp_all add: get_user_def admin_row_def staff_row_def verify_password_def
          hash_password_def)
  have m: "staff_row\<lparr>failed_attempts := 0, locked := False\<rparr> \<in> set (unlock_user ?db 7)"
    by (simp add: unlock_user_def update_where_def admin_row_def staff_row_def)
  have i: "get_user [admin_row, inactive_locked_row] ''ravi'' = Some inactive_locked_row"
    "\<not> active inactive_locked_row" "uid inactive_locked_row = 9"
    by (simp_all add: get_user_def admin_row_def inactive_locked_row_def)
  have first: "locked (apply_user_op rev ''2025-01-10T09:00:00'' ?db
                 (ValidateLogin ''admin'' ''guess'') ! 1) \<and>
     fst (validate_login rev ''2025-01-10T09:00:00'' (unlock_user ?db 7) ''asha'' ''secret'')
       = Some (''asha'', ''staff'') \<and>
     get_user (snd (validate_login rev ''2025-01-10T09:00:00'' (unlock_user ?db 7)
                ''asha'' ''secret'')) ''asha''
       = Some (staff_row\<lparr>failed_attempts := 0, locked := False,
                        last_login := Some ''2025-01-10T09:00:00''\<rparr>)"
    using d g
      locked_monotonic_until_unlock [of ?db "ValidateLogin ''admin'' ''guess''" 1 rev
        "''2025-01-10T09:00:00''" 7 "''asha''" ?u "''secret''" "''secret''"]
    by simp
  have second: "validate_login rev ''2025-01-10T09:00:00''
     (unlock_user [admin_row, inactive_locked_row] 9) ''ravi'' ''secret''
     = (None, unlock_user [admin_row, inactive_locked_row] 9)"
    using i
      locked_monotonic_until_unlock [where db = "[admin_row, inactive_locked_row]"
        and n = "''ravi''" and u = inactive_locked_row and H = rev
        and now = "''2025-01-10T09:00:00''" and pw' = "''secret''",
        THEN conjunct2, THEN conjunct2, THEN conjunct2, THEN conjunct2]
    by simp
  from d(1,2,4) first [THEN conjunct1] m g(1,2,3) first [THEN conjunct2, THEN conjunct1]
    first [THEN conjunct2, THEN conjunct2] i(1,2) second
  show ?thesis by (intro conjI)
qed

text \<open>
  Claim C2 as it is written lets every unlocked user log in, and lets no operation but
  the unlock clear a lock. An inactive user stays turned away: after the unlock, the
  right password still returns \<open>None\<close>. And the updates of \<open>validate_login\<close> are
  addressed by \<open>id\<close>, on which the source declares no key: where two rows share an
  id, a wrong password for the one that is not locked writes \<open>locked = false\<close> into
  the other, which was locked, with no unlock.
\<close>

theorem locked_claim_counterexample:
  "get_user [inactive_locked_row] ''ravi'' = Some inactive_locked_row \<and>
   locked inactive_locked_row \<and>
   verify_password rev ''secret'' (password_hash inactive_locked_row) \<and>
   get_user (unlock_user [inactive_locked_row] (uid inactive_locked_row)) ''ravi''
     = Some (inactive_locked_row\<lparr>failed_attempts := 0, locked := False\<rparr>) \<and>
   fst (validate_login rev ''2025-01-10T09:00:00''
          (unlock_user [inactive_locked_row] (uid inactive_locked_row)) ''ravi'' ''secret'')
     = None \<and>
   \<not> distinct (map uid [staff_row, twin_locked_row]) \<and>
   \<not> is_unlock (ValidateLogin ''asha'' ''guess'') \<and>
   locked ([staff_row, twin_locked_row] ! 1) \<and>
   apply_user_op rev ''2025-01-10T09:00:00'' [staff_row, twin_locked_row]
       (ValidateLogin ''asha'' ''guess'')
     = [staff_row\<lparr>failed_attempts := 1\<rparr>,
        twin_locked_row\<lparr>failed_attempts := 1, locked := False\<rparr>] \<and>
   \<not> locked (apply_user_op rev ''2025-01-10T09:00:00'' [staff_row, twin_locked_row]
               (ValidateLogin ''asha'' ''guess'') ! 1)"
  by (simp add: validate_login_def get_user_def unlock_user_def update_where_def
        inactive_locked_row_def staff_row_def twin_locked_row_def verify_password_def
        hash_password_def)

text \<open>
  Claim C3. For every table, \<open>get_next_invoice_ref\<close> and \<open>get_next_agreement_no\<close>
  return the prefix, the period key, a \<open>/\<close> and \<open>zfill(4)\<close> of the successor of the
  greatest number of the period, or of 0 when the period has none; so the number is 1
  when no reference of the period parses, and with the numbers 1 and 3 in the period
  the reference ends in \<open>0004\<close>. The numbers of the period are stated with nothing
  of the code in them: for a key without \<open>%\<close> and \<open>_\<close> (the keys are dates) they
  are the integers that are the token after the last \<open>/\<close> of a reference which
  holds the key between two \<open>/\<close>. In particular a token in spaces or with a sign
  counts, a token of another period, a token with a letter, with a doubled underscore
  or behind the separator character 0x1C does not: the call then skips it.
\<close>

theorem next_reference_is_max_plus_one:
  "get_next_invoice_ref mk invs =
     ''BE/KNG/PMSG/QTN/'' @ mk @ ''/'' @
       zfill 4 (str_int (spec_next_number (period_numbers mk (map invoice_ref invs)))) \<and>
   get_next_agreement_no yr ags =
     ''AG/SG/APDCL/'' @ yr @ ''/'' @
       zfill 4 (str_int (spec_next_number (period_numbers yr (map agreement_no ags)))) \<and>
   (period_numbers mk (map invoice_ref invs) = {} \<longrightarrow>
      get_next_invoice_ref mk invs = ''BE/KNG/PMSG/QTN/'' @ mk @ ''/0001'') \<and>
   (period_numbers yr (map agreement_no ags) = {} \<longrightarrow>
      get_next_agreement_no yr ags = ''AG/SG/APDCL/'' @ yr @ ''/0001'') \<and>
   (period_numbers mk (map invoice_ref invs) = {1, 3} \<longrightarrow>
      get_next_invoice_ref mk invs = ''BE/KNG/PMSG/QTN/'' @ mk @ ''/0004'') \<and>
   (period_numbers yr (map agreement_no ags) = {1, 3} \<longrightarrow>
      get_next_agreement_no yr ags = ''AG/SG/APDCL/'' @ yr @ ''/0004'') \<and>
   (CHR ''%'' \<notin> set key \<and> CHR ''_'' \<notin> set key \<longrightarrow>
      period_numbers key refs =
        {n. \<exists>r \<in> set refs. (\<exists>a b. r = a @ ''/'' @ key @ ''/'' @ b) \<and>
                            int_token (last_segment r) n}) \<and>
   get_next_invoice_ref ''01/25'' [invoice_with_ref ''BE/KNG/PMSG/QTN/01/25/ 7 '']
     = ''BE/KNG/PMSG/QTN/01/25/0008'' \<and>
   get_next_invoice_ref ''01/25'' [invoice_with_ref (''BE/KNG/PMSG/QTN/01/25/'' @ [CHR 0xA0] @ ''7'')]
     = ''BE/KNG/PMSG/QTN/01/25/0008'' \<and>
   get_next_invoice_ref ''01/25'' [invoice_with_ref ''BE/KNG/PMSG/QTN/01/25/+1_0'']
     = ''BE/KNG/PMSG/QTN/01/25/0011'' \<and>
   get_next_invoice_ref ''01/25'' [invoice_with_ref (''BE/KNG/PMSG/QTN/01/25/'' @ [CHR 0x1C] @ ''7'')]
     = ''BE/KNG/PMSG/QTN/01/25/0001'' \<and>
   get_next_invoice_ref ''01/25'' [invoice_with_ref ''BE/KNG/PMSG/QTN/01/25/1__0'']
     = ''BE/KNG/PMSG/QTN/01/25/0001'' \<and>
   get_next_invoice_ref ''01/25'' [invoice_with_ref ''BE/KNG/PMSG/QTN/01/25/7a'']
     = ''BE/KNG/PMSG/QTN/01/25/0001'' \<and>
   get_next_invoice_ref ''01/25'' [invoice_with_ref ''BE/KNG/PMSG/QTN/12/24/0007'']
     = ''BE/KNG/PMSG/QTN/01/25/0001''"
proof -
  have e: "zfill 4 (str_int (spec_next_number {})) = ''0001''"
    by (simp only: spec_next_number_empty zfill_one)
  have f: "zfill 4 (str_int (spec_next_number {1, 3})) = ''0004''"
    by (simp only: spec_next_number_1_3 zfill_four)
  have c1: "get_next_invoice_ref mk invs =
     ''BE/KNG/PMSG/QTN/'' @ mk @ ''/'' @
       zfill 4 (str_int (spec_next_number (period_numbers mk (map invoice_ref invs))))"
    by (rule get_next_invoice_ref_spec)
  have c2: "get_next_agreement_no yr ags =
     ''AG/SG/APDCL/'' @ yr @ ''/'' @
       zfill 4 (str_int (spec_next_number (period_numbers yr (map agreement_no ags))))"
    by (rule get_next_agreement_no_spec)
  have c3: "period_numbers mk (map invoice_ref invs) = {} \<longrightarrow>
      get_next_invoice_ref mk invs = ''BE/KNG/PMSG/QTN/'' @ mk @ ''/0001''"
    using e by (simp add: get_next_invoice_ref_spec)
  have c4: "period_numbers yr (map agreement_no ags) = {} \<longrightarrow>
      get_next_agreement_no yr ags = ''AG/SG/APDCL/'' @ yr @ ''/0001''"
    using e by (simp add: get_next_agreement_no_spec)
  have c5: "period_numbers mk (map invoice_ref invs) = {1, 3} \<longrightarrow>
      get_next_invoice_ref mk invs = ''BE/KNG/PMSG/QTN/'' @ mk @ ''/0004''"
    using f by (simp add: get_next_invoice_ref_spec)
  have c6: "period_numbers yr (map agreement_no ags) = {1, 3} \<longrightarrow>
      get_next_agreement_no yr ags = ''AG/SG/APDCL/'' @ yr @ ''/0004''"
    using f by (simp add: get_next_agreement_no_spec)
  have c7: "CHR ''%'' \<notin> set key \<and> CHR ''_'' \<notin> set key \<longrightarrow>
      period_numbers key refs =
        {n. \<exists>r \<in> set refs. (\<exists>a b. r = a @ ''/'' @ key @ ''/'' @ b) \<and>
                            int_token (last_segment r) n}"
  proof (intro impI)
    assume "CHR ''%'' \<notin> set key \<and> CHR ''_'' \<notin> set key"
    then have k: "CHR ''%'' \<notin> set key" "CHR ''_'' \<notin> set key"
      by simp_all
    show "period_numbers key refs =
        {n. \<exists>r \<in> set refs. (\<exists>a b. r = a @ ''/'' @ key @ ''/'' @ b) \<and>
                            int_token (last_segment r) n}"
      by (simp only: period_numbers_def period_pattern_contains [OF k])
  qed
  have p1: "get_next_invoice_ref ''01/25'' [invoice_with_ref ''BE/KNG/PMSG/QTN/01/25/ 7 '']
     = ''BE/KNG/PMSG/QTN/01/25/0008''"
    by code_simp
  have p2: "get_next_invoice_ref ''01/25''
       [invoice_with_ref (''BE/KNG/PMSG/QTN/01/25/'' @ [CHR 0xA0] @ ''7'')]
     = ''BE/KNG/PMSG/QTN/01/25/0008''"
    by code_simp
  have p3: "get_next_invoice_ref ''01/25'' [invoice_with_ref ''BE/KNG/PMSG/QTN/01/25/+1_0'']
     = ''BE/KNG/PMSG/QTN/01/25/0011''"
    by code_simp
  have p4: "get_next_invoice_ref ''01/25''
       [invoice_with_ref (''BE/KNG/PMSG/QTN/01/25/'' @ [CHR 0x1C] @ ''7'')]
     = ''BE/KNG/PMSG/QTN/01/25/0001''"
    by code_simp
  have p5: "get_next_invoice_ref ''01/25'' [invoice_with_ref ''BE/KNG/PMSG/QTN/01/25/1__0'']
     = ''BE/KNG/PMSG/QTN/01/25/0001''"
    by code_simp
  have p6: "get_next_invoice_ref ''01/25'' [invoice_with_ref ''BE/KNG/PMSG/QTN/01/25/7a'']
     = ''BE/KNG/PMSG/QTN/01/25/0001''"
    by code_simp
  have p7: "get_next_invoice_ref ''01/25'' [invoice_with_ref ''BE/KNG/PMSG/QTN/12/24/0007'']
     = ''BE/KNG/PMSG/QTN/01/25/0001''"
    by code_simp
  from c1 c2 c3 c4 c5 c6 c7 p1 p2 p3 p4 p5 p6 p7 show ?thesis
    by (intro conjI)
qed

theorem next_reference_is_max_plus_one_witness:
  "period_numbers ''01/25''
     (map invoice_ref (map invoice_with_ref
        [''BE/KNG/PMSG/QTN/01/25/0001'', ''BE/KNG/PMSG/QTN/01/25/0003'',
         ''BE/KNG/PMSG/QTN/12/24/0009'', ''BE/KNG/PMSG/QTN/01/25/draft''])) = {1, 3} \<and>
   get_next_invoice_ref ''01/25''
     (map invoice_with_ref
        [''BE/KNG/PMSG/QTN/01/25/0001'', ''BE/KNG/PMSG/QTN/01/25/0003'',
         ''BE/KNG/PMSG/QTN/12/24/0009'', ''BE/KNG/PMSG/QTN/01/25/draft''])
     = ''BE/KNG/PMSG/QTN/01/25/0004'' \<and>
   period_numbers ''2025'' (map agreement_no []) = {} \<and>
   get_next_agreement_no ''2025'' [] = ''AG/SG/APDCL/2025/0001'' \<and>
   CHR ''%'' \<notin> set ''01/25'' \<and> CHR ''_'' \<notin> set ''01/25'' \<and>
   period_numbers ''01/25'' [''BE/KNG/PMSG/QTN/01/25/0003'']
     = {n. int_token ''0003'' n} \<and>
   int_token ''0003'' 3"
proof -
  let ?invs = "map invoice_with_ref
          [''BE/KNG/PMSG/QTN/01/25/0001'', ''BE/KNG/PMSG/QTN/01/25/0003'',
           ''BE/KNG/PMSG/QTN/12/24/0009'', ''BE/KNG/PMSG/QTN/01/25/draft'']"
  have p: "period_numbers ''2025'' (map agreement_no []) = {}"
    by (simp add: period_numbers_def)
  note t = next_reference_is_max_plus_one [where mk = "''01/25''" and invs = ?invs
      and yr = "''2025''" and ags = "[]" and key = "''01/25''"
      and refs = "[''BE/KNG/PMSG/QTN/01/25/0003'']"]
  have i: "get_next_invoice_ref ''01/25'' ?invs = ''BE/KNG/PMSG/QTN/'' @ ''01/25'' @ ''/0004''"
    by (rule mp [OF t [THEN conjunct2, THEN conjunct2, THEN conjunct2, THEN conjunct2,
            THEN conjunct1] example_period_numbers])
  have a: "get_next_agreement_no ''2025'' [] = ''AG/SG/APDCL/'' @ ''2025'' @ ''/0001''"
    by (rule mp [OF t [THEN conjunct2, THEN conjunct2, THEN conjunct2, THEN conjunct1] p])
  have i': "get_next_invoice_ref ''01/25'' ?invs = ''BE/KNG/PMSG/QTN/01/25/0004''"
    using i by simp
  have a': "get_next_agreement_no ''2025'' [] = ''AG/SG/APDCL/2025/0001''"
    using a by simp
  have k: "CHR ''%'' \<notin> set ''01/25''" "CHR ''_'' \<notin> set ''01/25''"
    by simp_all
  have k': "CHR ''%'' \<notin> set ''01/25'' \<and> CHR ''_'' \<notin> set ''01/25''"
    using k by (intro conjI)
  have c: "period_numbers ''01/25'' [''BE/KNG/PMSG/QTN/01/25/0003'']
     = {n. \<exists>r \<in> set [''BE/KNG/PMSG/QTN/01/25/0003''].
             (\<exists>a b. r = a @ ''/'' @ ''01/25'' @ ''/'' @ b) \<and> int_token (last_segment r) n}"
    by (rule mp [OF t [THEN conjunct2, THEN conjunct2, THEN conjunct2, THEN conjunct2,
            THEN conjunct2, THEN conjunct2, THEN conjunct1] k'])
  have ls: "last_segment ''BE/KNG/PMSG/QTN/01/25/0003'' = ''0003''"
    by (simp add: last_segment_def)
  have ex: "\<exists>a b. ''BE/KNG/PMSG/QTN/01/25/0003'' = a @ ''/'' @ ''01/25'' @ ''/'' @ b"
  proof (intro exI)
    show "''BE/KNG/PMSG/QTN/01/25/0003'' = ''BE/KNG/PMSG/QTN'' @ ''/'' @ ''01/25'' @ ''/'' @ ''0003''"
      by simp
  qed
  have c': "period_numbers ''01/25'' [''BE/KNG/PMSG/QTN/01/25/0003''] = {n. int_token ''0003'' n}"
    unfolding c using ls ex by simp
  have tk: "int_token ''0003'' 3"
    unfolding py_int_iff_int_token [symmetric] by code_simp
  from example_period_numbers i' p a' k c' tk show ?thesis
    by (intro conjI)
qed

text \<open>
  Claim C4. For a caller whose role is not \<open>admin\<close>, every row of the page that
  \<open>fetch_invoices\<close> or \<open>fetch_agreements\<close> returns is a row of the table with
  \<open>created_by\<close> equal to the caller's username, for every search term, limit and
  offset. An admin is not restricted by \<open>created_by\<close>: with a page as long as the
  table, the admin gets every row that matches the search (every row when there is no
  search term), whoever created it.
\<close>

theorem history_role_scoping:
  "(rl \<noteq> ''admin'' \<longrightarrow>
      (\<forall>r \<in> set (data (fetch_invoices rl uname search limit offset invs)).
         created_by r = uname \<and> r \<in> set invs)) \<and>
   (rl \<noteq> ''admin'' \<longrightarrow>
      (\<forall>r \<in> set (data (fetch_agreements rl uname search limit offset ags)).
         created_by r = uname \<and> r \<in> set ags)) \<and>
   set (data (fetch_invoices ''admin'' uname search (length invs) 0 invs)) =
     {r \<in> set invs. \<forall>s. search = Some s \<and> s \<noteq> [] \<longrightarrow> or_ilike invoice_ref s r} \<and>
   set (data (fetch_agreements ''admin'' uname search (length ags) 0 ags)) =
     {r \<in> set ags. \<forall>s. search = Some s \<and> s \<noteq> [] \<longrightarrow> or_ilike agreement_no s r}"
  using fetch_invoices_scoped [of rl _ uname search limit offset invs]
    fetch_agreements_scoped [of rl _ uname search limit offset ags]
    fetch_invoices_admin [of uname search invs] fetch_agreements_admin [of uname search ags]
  by blast

theorem history_role_scoping_witness:
  "''staff'' \<noteq> ''admin'' \<and>
   or_ilike invoice_ref ''555''
     (invoice_of ''ravi'' ''Three Phase'' (JNum 350000) ''2025-01-11T09:00:00'') \<and>
   map created_by (data (fetch_invoices ''staff'' ''asha'' (Some ''555'') 20 0
     [invoice_of ''asha'' ''Single Phase'' (JNum 210000) ''2025-01-10T09:00:00'',
      invoice_of ''ravi'' ''Three Phase'' (JNum 350000) ''2025-01-11T09:00:00''])) = [''asha''] \<and>
   list_all (\<lambda>r. created_by r = ''asha'')
     (data (fetch_invoices ''staff'' ''asha'' (Some ''555'') 20 0
       [invoice_of ''asha'' ''Single Phase'' (JNum 210000) ''2025-01-10T09:00:00'',
        invoice_of ''ravi'' ''Three Phase'' (JNum 350000) ''2025-01-11T09:00:00''])) \<and>
   map created_by (data (fetch_agreements ''staff'' ''ravi'' None 20 0
     [agreement_of ''asha'' ''Single Phase'' (JNum 210000) ''2025-01-10T09:00:00'',
      agreement_of ''ravi'' ''Three Phase'' (JNum 350000) ''2025-01-11T09:00:00''])) = [''ravi''] \<and>
   list_all (\<lambda>r. created_by r = ''ravi'')
     (data (fetch_agreements ''staff'' ''ravi'' None 20 0
       [agreement_of ''asha'' ''Single Phase'' (JNum 210000) ''2025-01-10T09:00:00'',
        agreement_of ''ravi'' ''Three Phase'' (JNum 350000) ''2025-01-11T09:00:00''])) \<and>
   map created_by (data (fetch_invoices ''admin'' ''admin'' (Some ''555'') 20 0
     [invoice_of ''asha'' ''Single Phase'' (JNum 210000) ''2025-01-10T09:00:00'',
      invoice_of ''ravi'' ''Three Phase'' (JNum 350000) ''2025-01-11T09:00:00'']))
     = [''ravi'', ''asha'']"
proof -
  let ?invs = "[invoice_of ''asha'' ''Single Phase'' (JNum 210000) ''2025-01-10T09:00:00'',
      invoice_of ''ravi'' ''Three Phase'' (JNum 350000) ''2025-01-11T09:00:00'']"
  let ?ags = "[agreement_of ''asha'' ''Single Phase'' (JNum 210000) ''2025-01-10T09:00:00'',
      agreement_of ''ravi'' ''Three Phase'' (JNum 350000) ''2025-01-11T09:00:00'']"
  have h: "''staff'' \<noteq> ''admin''" by simp
  have m: "or_ilike invoice_ref ''555''
     (invoice_of ''ravi'' ''Three Phase'' (JNum 350000) ''2025-01-11T09:00:00'')"
    by code_simp
  have e1: "map created_by (data (fetch_invoices ''staff'' ''asha'' (Some ''555'') 20 0 ?invs))
              = [''asha'']"
    by code_simp
  have e2: "map created_by (data (fetch_agreements ''staff'' ''ravi'' None 20 0 ?ags)) = [''ravi'']"
    by code_simp
  have e3: "map created_by (data (fetch_invoices ''admin'' ''admin'' (Some ''555'') 20 0 ?invs))
              = [''ravi'', ''asha'']"
    by code_simp
  note t = history_role_scoping [where rl = "''staff''" and uname = "''asha''"
      and search = "Some ''555''" and limit = 20 and offset = 0 and invs = ?invs]
  note t' = history_role_scoping [where rl = "''staff''" and uname = "''ravi''" and search = None
      and limit = 20 and offset = 0 and ags = ?ags]
  have s1: "list_all (\<lambda>r. created_by r = ''asha'')
              (data (fetch_invoices ''staff'' ''asha'' (Some ''555'') 20 0 ?invs))"
    unfolding list_all_iff using mp [OF t [THEN conjunct1] h] by blast
  have s2: "list_all (\<lambda>r. created_by r = ''ravi'')
              (data (fetch_agreements ''staff'' ''ravi'' None 20 0 ?ags))"
    unfolding list_all_iff using mp [OF t' [THEN conjunct2, THEN conjunct1] h] by blast
  from h m e1 s1 e2 s2 e3 show ?thesis by (intro conjI)
qed

text \<open>
  Claim C5. The claim asks every aggregation to skip a row whose amount does not
  coerce. \<open>calculate_invoice_totals\<close> and \<open>calculate_agreement_totals\<close> do: the
  row is counted and adds nothing. \<open>get_revenue_kpis\<close>, \<open>get_daily_revenue_series\<close>
  and \<open>get_staff_performance\<close> call \<open>float\<close> outside any handler: on a table
  with one null amount (or one text that is no number) they raise, whatever the
  float arithmetic \<open>fl\<close> of the interpreter.
\<close>

theorem analytics_raise_on_bad_amount:
  "get_revenue_kpis whole_numbers None None
     [invoice_of ''asha'' ''Single Phase'' (JNum 210000) ''2025-01-10T09:00:00'',
      invoice_of ''ravi'' ''Three Phase'' JNull ''2025-01-11T09:00:00''] = Inl TypeError \<and>
   get_daily_revenue_series whole_numbers None None
     [invoice_of ''asha'' ''Single Phase'' (JNum 210000) ''2025-01-10T09:00:00'',
      invoice_of ''ravi'' ''Three Phase'' JNull ''2025-01-11T09:00:00''] = Inl TypeError \<and>
   get_staff_performance whole_numbers None None
     [invoice_of ''asha'' ''Single Phase'' (JNum 210000) ''2025-01-10T09:00:00'',
      invoice_of ''ravi'' ''Three Phase'' JNull ''2025-01-11T09:00:00''] = Inl TypeError \<and>
   get_revenue_kpis whole_numbers None None
     [invoice_of ''ravi'' ''Three Phase'' (JStr ''n/a'') ''2025-01-11T09:00:00''] = Inl ValueError \<and>
   calculate_invoice_totals whole_numbers
     [invoice_of ''asha'' ''Single Phase'' (JNum 210000) ''2025-01-10T09:00:00'',
      invoice_of ''ravi'' ''Three Phase'' JNull ''2025-01-11T09:00:00'']
     = \<lparr>records = 2, total_amount = 210000\<rparr> \<and>
   calculate_agreement_totals whole_numbers
     [agreement_of ''asha'' ''Single Phase'' (JNum 210000) ''2025-01-10T09:00:00'',
      agreement_of ''ravi'' ''Three Phase'' (JStr ''n/a'') ''2025-01-11T09:00:00'']
     = \<lparr>records = 2, total_amount = 210000\<rparr> \<and>
   isl (get_revenue_kpis fl None None
     [invoice_of ''asha'' ''Single Phase'' (JNum 210000) ''2025-01-10T09:00:00'',
      invoice_of ''ravi'' ''Three Phase'' JNull ''2025-01-11T09:00:00'']) \<and>
   isl (get_daily_revenue_series fl None None
     [invoice_of ''asha'' ''Single Phase'' (JNum 210000) ''2025-01-10T09:00:00'',
      invoice_of ''ravi'' ''Three Phase'' JNull ''2025-01-11T09:00:00'']) \<and>
   isl (get_staff_performance fl None None
     [invoice_of ''asha'' ''Single Phase'' (JNum 210000) ''2025-01-10T09:00:00'',
      invoice_of ''ravi'' ''Three Phase'' JNull ''2025-01-11T09:00:00'']) \<and>
   get_revenue_kpis fl None None
     [invoice_of ''ravi'' ''Three Phase'' JNull ''2025-01-11T09:00:00''] = Inl TypeError \<and>
   records (calculate_invoice_totals fl
     [invoice_of ''asha'' ''Single Phase'' (JNum 210000) ''2025-01-10T09:00:00'',
      invoice_of ''ravi'' ''Three Phase'' JNull ''2025-01-11T09:00:00'']) = 2"
proof -
  let ?rows = "[invoice_of ''asha'' ''Single Phase'' (JNum 210000) ''2025-01-10T09:00:00'',
      invoice_of ''ravi'' ''Three Phase'' JNull ''2025-01-11T09:00:00'']"
  let ?bad = "invoice_of ''ravi'' ''Three Phase'' JNull ''2025-01-11T09:00:00''"
  have e1: "get_revenue_kpis whole_numbers None None ?rows = Inl TypeError"
    by code_simp
  have e2: "get_daily_revenue_series whole_numbers None None ?rows = Inl TypeError"
    by code_simp
  have e3: "get_staff_performance whole_numbers None None ?rows = Inl TypeError"
    by code_simp
  have e4: "get_revenue_kpis whole_numbers None None
     [invoice_of ''ravi'' ''Three Phase'' (JStr ''n/a'') ''2025-01-11T09:00:00''] = Inl ValueError"
    by code_simp
  have e5: "calculate_invoice_totals whole_numbers ?rows = \<lparr>records = 2, total_amount = 210000\<rparr>"
    by code_simp
  have e6: "calculate_agreement_totals whole_numbers
     [agreement_of ''asha'' ''Single Phase'' (JNum 210000) ''2025-01-10T09:00:00'',
      agreement_of ''ravi'' ''Three Phase'' (JStr ''n/a'') ''2025-01-11T09:00:00'']
     = \<lparr>records = 2, total_amount = 210000\<rparr>"
    by code_simp
  have m: "?bad \<in> set (fetch_invoices_in_range None None ?rows)"
    by (simp add: fetch_invoices_in_range_def)
  have n: "isl (py_float fl (amount ?bad))"
    by (simp add: py_float_def invoice_of_def)
  have g1: "isl (get_revenue_kpis fl None None ?rows)"
    by (rule analytics_raise(1) [OF m n])
  have g2: "isl (get_daily_revenue_series fl None None ?rows)"
    by (rule analytics_raise(2) [OF m n])
  have g3: "isl (get_staff_performance fl None None ?rows)"
    by (rule analytics_raise(3) [OF m n])
  have g4: "get_revenue_kpis fl None None [?bad] = Inl TypeError"
    by (simp add: get_revenue_kpis_def fetch_invoices_in_range_def py_float_def invoice_of_def)
  have g5: "records (calculate_invoice_totals fl ?rows) = 2"
    by (simp add: calculate_invoice_totals_skips)
  from e1 e2 e3 e4 e5 e6 g1 g2 g3 g4 g5 show ?thesis
    by (intro conjI)
qed

text \<open>
  Claim C6. The claim gives an average for every set of invoices in the range. With
  no invoice the call returns 0, and with amounts that all coerce it returns the
  total over the count, rounded to hundredths. With one null amount among the
  invoices it returns nothing: \<open>float\<close> raises before the average is taken,
  whatever the float arithmetic \<open>fl\<close> of the interpreter.
\<close>

theorem average_not_returned_on_bad_amount:
  "get_revenue_kpis whole_numbers None None []
     = Inr \<lparr>total_revenue = 0, total_invoices = 0, avg_value = 0\<rparr> \<and>
   get_revenue_kpis whole_numbers None None
     [invoice_of ''asha'' ''Single Phase'' (JNum 210000) ''2025-01-10T09:00:00'',
      invoice_of ''ravi'' ''Three Phase'' (JNum 350000) ''2025-01-11T09:00:00'']
     = Inr \<lparr>total_revenue = 560000, total_invoices = 2, avg_value = 280000\<rparr> \<and>
   length (fetch_invoices_in_range None None
     [invoice_of ''asha'' ''Single Phase'' (JNum 210000) ''2025-01-10T09:00:00'',
      invoice_of ''ravi'' ''Three Phase'' JNull ''2025-01-11T09:00:00'']) = 2 \<and>
   get_revenue_kpis whole_numbers None None
     [invoice_of ''asha'' ''Single Phase'' (JNum 210000) ''2025-01-10T09:00:00'',
      invoice_of ''ravi'' ''Three Phase'' JNull ''2025-01-11T09:00:00''] = Inl TypeError \<and>
   get_revenue_kpis fl None None []
     = Inr \<lparr>total_revenue = 0, total_invoices = 0, avg_value = 0\<rparr> \<and>
   isl (get_revenue_kpis fl None None
     [invoice_of ''asha'' ''Single Phase'' (JNum 210000) ''2025-01-10T09:00:00'',
      invoice_of ''ravi'' ''Three Phase'' JNull ''2025-01-11T09:00:00''])"
proof -
  let ?rows = "[invoice_of ''asha'' ''Single Phase'' (JNum 210000) ''2025-01-10T09:00:00'',
      invoice_of ''ravi'' ''Three Phase'' JNull ''2025-01-11T09:00:00'']"
  let ?bad = "invoice_of ''ravi'' ''Three Phase'' JNull ''2025-01-11T09:00:00''"
  have e1: "get_revenue_kpis whole_numbers None None []
     = Inr \<lparr>total_revenue = 0, total_invoices = 0, avg_value = 0\<rparr>"
    by code_simp
  have e2: "get_revenue_kpis whole_numbers None None
     [invoice_of ''asha'' ''Single Phase'' (JNum 210000) ''2025-01-10T09:00:00'',
      invoice_of ''ravi'' ''Three Phase'' (JNum 350000) ''2025-01-11T09:00:00'']
     = Inr \<lparr>total_revenue = 560000, total_invoices = 2, avg_value = 280000\<rparr>"
    by code_simp
  have e3: "length (fetch_invoices_in_range None None ?rows) = 2"
    by (simp add: fetch_invoices_in_range_def)
  have e4: "get_revenue_kpis whole_numbers None None ?rows = Inl TypeError"
    by code_simp
  have g1: "get_revenue_kpis fl None None []
     = Inr \<lparr>total_revenue = 0, total_invoices = 0, avg_value = 0\<rparr>"
    by (rule get_revenue_kpis_empty) (simp add: fetch_invoices_in_range_def)
  have m: "?bad \<in> set (fetch_invoices_in_range None None ?rows)"
    by (simp add: fetch_invoices_in_range_def)
  have n: "isl (py_float fl (amount ?bad))"
    by (simp add: py_float_def invoice_of_def)
  have g2: "isl (get_revenue_kpis fl None None ?rows)"
    by (rule analytics_raise(1) [OF m n])
  from e1 e2 e3 e4 g1 g2 show ?thesis
    by (intro conjI)
qed

text \<open>
  Claim C7. For every table and range, the dictionary of \<open>get_phase_split\<close> has the
  keys \<open>Single Phase\<close> and \<open>Three Phase\<close>, each with the number of invoices of
  the range that have that phase; with no invoice both are 0.
\<close>

theorem phase_split_has_both_keys:
  "map_of (get_phase_split sd ed db) ''Single Phase'' =
     Some (length (filter (\<lambda>i. phase i = ''Single Phase'') (fetch_invoices_in_range sd ed db))) \<and>
   map_of (get_phase_split sd ed db) ''Three Phase'' =
     Some (length (filter (\<lambda>i. phase i = ''Three Phase'') (fetch_invoices_in_range sd ed db))) \<and>
   (fetch_invoices_in_range sd ed db = [] \<longrightarrow>
      get_phase_split sd ed db = [(''Single Phase'', 0), (''Three Phase'', 0)])"
  using get_phase_split_count [of "''Single Phase''" sd ed db]
    get_phase_split_count [of "''Three Phase''" sd ed db] get_phase_split_empty [of sd ed db]
  by simp

theorem phase_split_has_both_keys_witness:
  "fetch_invoices_in_range None None ([] :: invoice list) = [] \<and>
   get_phase_split None None [] = [(''Single Phase'', 0), (''Three Phase'', 0)] \<and>
   map_of (get_phase_split None None
     [invoice_of ''asha'' ''Three Phase'' (JNum 350000) ''2025-01-10T09:00:00'',
      invoice_of ''ravi'' ''Three Phase'' (JNum 350000) ''2025-01-11T09:00:00''])
     ''Single Phase'' = Some 0 \<and>
   map_of (get_phase_split None None
     [invoice_of ''asha'' ''Three Phase'' (JNum 350000) ''2025-01-10T09:00:00'',
      invoice_of ''ravi'' ''Three Phase'' (JNum 350000) ''2025-01-11T09:00:00''])
     ''Three Phase'' = Some 2"
proof -
  let ?db = "[invoice_of ''asha'' ''Three Phase'' (JNum 350000) ''2025-01-10T09:00:00'',
      invoice_of ''ravi'' ''Three Phase'' (JNum 350000) ''2025-01-11T09:00:00'']"
  have e: "fetch_invoices_in_range None None ([] :: invoice list) = []"
    by (simp add: fetch_invoices_in_range_def)
  have c: "length (filter (\<lambda>i. phase i = ''Single Phase'')
             (fetch_invoices_in_range None None ?db)) = 0"
    "length (filter (\<lambda>i. phase i = ''Three Phase'')
             (fetch_invoices_in_range None None ?db)) = 2"
    by (simp_all add: fetch_invoices_in_range_def invoice_of_def)
  note t0 = phase_split_has_both_keys [of None None "[]"]
  note t1 = phase_split_has_both_keys [of None None ?db]
  have z: "get_phase_split None None [] = [(''Single Phase'', 0), (''Three Phase'', 0)]"
    by (rule mp [OF t0 [THEN conjunct2, THEN conjunct2] e])
  have s: "map_of (get_phase_split None None ?db) ''Single Phase'' = Some 0"
    using t1 [THEN conjunct1] c(1) by simp
  have t: "map_of (get_phase_split None None ?db) ''Three Phase'' = Some 2"
    using t1 [THEN conjunct2, THEN conjunct1] c(2) by simp
  from e z s t show ?thesis by (intro conjI)
qed

text \<open>
  Claim C8. A generation that passes the check of the form appends one invoice and
  one agreement that carry the same phase and the same amount: \<open>Three Phase\<close> from
  5 kW on and \<open>Single Phase\<close> below, and the capacity times 70000 as an integer.
  Capacity 5 gives \<open>Three Phase\<close> and 350000, capacity 3 gives \<open>Single Phase\<close>
  and 210000.
\<close>

theorem generated_phase_and_amount:
  "in_customer_name form \<noteq> [] \<and> in_phone form \<noteq> [] \<longrightarrow>
     (\<exists>st' iv ag.
        generate_documents uname mk yr now form st = Inr st' \<and>
        invoices st' = invoices st @ [iv] \<and> agreements st' = agreements st @ [ag] \<and>
        phase ag = phase iv \<and> amount ag = amount iv \<and>
        phase iv = (if 5 \<le> in_capacity form then ''Three Phase'' else ''Single Phase'') \<and>
        amount iv = JNum (of_int (py_trunc (in_capacity form * of_int RATE_PER_KW))) \<and>
        (in_capacity form = 5 \<longrightarrow> phase iv = ''Three Phase'' \<and> amount iv = JNum 350000) \<and>
        (in_capacity form = 3 \<longrightarrow> phase iv = ''Single Phase'' \<and> amount iv = JNum 210000))"
proof
  assume a: "in_customer_name form \<noteq> [] \<and> in_phone form \<noteq> []"
  then obtain st' iv ag where g:
    "generate_documents uname mk yr now form st = Inr st'"
    "invoices st' = invoices st @ [iv]" "agreements st' = agreements st @ [ag]"
    "phase iv = (if 5 \<le> in_capacity form then ''Three Phase'' else ''Single Phase'')"
    "amount iv = JNum (of_int (py_trunc (in_capacity form * of_int RATE_PER_KW)))"
    "phase ag = phase iv" "amount ag = amount iv"
    using generate_documents_ok [of form uname mk yr now st] by blast
  have five: "py_trunc (5 * of_int RATE_PER_KW) = 350000"
    by (simp add: RATE_PER_KW_def py_trunc_def)
  have three: "py_trunc (3 * of_int RATE_PER_KW) = 210000"
    by (simp add: RATE_PER_KW_def py_trunc_def)
  have "in_capacity form = 5 \<longrightarrow> phase iv = ''Three Phase'' \<and> amount iv = JNum 350000"
    using g(4,5) five by simp
  moreover have "in_capacity form = 3 \<longrightarrow> phase iv = ''Single Phase'' \<and> amount iv = JNum 210000"
    using g(4,5) three by simp
  ultimately show "\<exists>st' iv ag.
        generate_documents uname mk yr now form st = Inr st' \<and>
        invoices st' = invoices st @ [iv] \<and> agreements st' = agreements st @ [ag] \<and>
        phase ag = phase iv \<and> amount ag = amount iv \<and>
        phase iv = (if 5 \<le> in_capacity form then ''Three Phase'' else ''Single Phase'') \<and>
        amount iv = JNum (of_int (py_trunc (in_capacity form * of_int RATE_PER_KW))) \<and>
        (in_capacity form = 5 \<longrightarrow> phase iv = ''Three Phase'' \<and> amount iv = JNum 350000) \<and>
        (in_capacity form = 3 \<longrightarrow> phase iv = ''Single Phase'' \<and> amount iv = JNum 210000)"
    using g by blast
qed

theorem generated_phase_and_amount_witness:
  "in_customer_name (example_form 5) \<noteq> [] \<and> in_phone (example_form 5) \<noteq> [] \<and>
   in_capacity (example_form 5) = 5 \<and> in_capacity (example_form 3) = 3 \<and>
   (\<exists>st'. generate_documents ''asha'' ''01/25'' ''2025'' ''2025-01-10T09:00:00''
             (example_form 5) empty_store = Inr st' \<and>
          map phase (invoices st') = [''Three Phase''] \<and>
          map amount (invoices st') = [JNum 350000] \<and>
          map phase (agreements st') = [''Three Phase''] \<and>
          map amount (agreements st') = [JNum 350000]) \<and>
   (\<exists>st'. generate_documents ''asha'' ''01/25'' ''2025'' ''2025-01-10T09:00:00''
             (example_form 3) empty_store = Inr st' \<and>
          map phase (invoices st') = [''Single Phase''] \<and>
          map amount (invoices st') = [JNum 210000] \<and>
          map phase (agreements st') = [''Single Phase''] \<and>
          map amount (agreements st') = [JNum 210000])"
proof -
  have h: "in_customer_name (example_form c) \<noteq> [] \<and> in_phone (example_form c) \<noteq> []" for c
    by (simp add: example_form_def)
  have c: "in_capacity (example_form 5) = 5" "in_capacity (example_form 3) = 3"
    by (simp_all add: example_form_def)
  have e: "invoices empty_store = []" "agreements empty_store = []"
    by (simp_all add: empty_store_def)
  from mp [OF generated_phase_and_amount [of "example_form 5" "''asha''" "''01/25''" "''2025''"
        "''2025-01-10T09:00:00''" empty_store] h]
  have five: "\<exists>st'. generate_documents ''asha'' ''01/25'' ''2025'' ''2025-01-10T09:00:00''
             (example_form 5) empty_store = Inr st' \<and>
          map phase (invoices st') = [''Three Phase''] \<and>
          map amount (invoices st') = [JNum 350000] \<and>
          map phase (agreements st') = [''Three Phase''] \<and>
          map amount (agreements st') = [JNum 350000]"
    using c(1) e by auto
  from mp [OF generated_phase_and_amount [of "example_form 3" "''asha''" "''01/25''" "''2025''"
        "''2025-01-10T09:00:00''" empty_store] h]
  have three: "\<exists>st'. generate_documents ''asha'' ''01/25'' ''2025'' ''2025-01-10T09:00:00''
             (example_form 3) empty_store = Inr st' \<and>
          map phase (invoices st') = [''Single Phase''] \<and>
          map amount (invoices st') = [JNum 210000] \<and>
          map phase (agreements st') = [''Single Phase''] \<and>
          map amount (agreements st') = [JNum 210000]"
    using c(2) e by auto
  from h [of 5] c five three show ?thesis by (intro conjI) (erule conjunct1 conjunct2 | assumption)+
qed

text \<open>
  Claim C9, as the code has it. The last \<open>/\<close>-token of the returned reference is
  \<open>zfill(4)\<close> of the next value \<open>n\<close>. It has exactly 4 characters when
  \<open>-1000 < n < 10000\<close>; from 10000 on it is \<open>str(n)\<close> unchanged, longer than 4
  characters. It always parses back to \<open>n\<close>, and once a row with the returned
  reference is stored the next value is \<open>n + 1\<close>, beyond 9999 as below it.
\<close>

theorem reference_padding_never_truncates:
  fixes mk yr :: string and invs :: "invoice list" and ags :: "agreement list"
    and row :: invoice and arow :: agreement
  defines "n \<equiv> spec_next_number (period_numbers mk (map invoice_ref invs))"
    and "seg \<equiv> last (split_on CHR ''/'' (get_next_invoice_ref mk invs))"
    and "m \<equiv> spec_next_number (period_numbers yr (map agreement_no ags))"
    and "aseg \<equiv> last (split_on CHR ''/'' (get_next_agreement_no yr ags))"
  shows
  "seg = zfill 4 (str_int n) \<and> aseg = zfill 4 (str_int m) \<and>
   (- 1000 < n \<and> n < 10000 \<longrightarrow> length seg = 4) \<and>
   (- 1000 < m \<and> m < 10000 \<longrightarrow> length aseg = 4) \<and>
   (10000 \<le> n \<longrightarrow> seg = str_int n \<and> 4 < length seg) \<and>
   (10000 \<le> m \<longrightarrow> aseg = str_int m \<and> 4 < length aseg) \<and>
   py_int seg = Some n \<and> py_int aseg = Some m \<and>
   spec_next_number (period_numbers mk
      (map invoice_ref (invs @ [row\<lparr>invoice_ref := get_next_invoice_ref mk invs\<rparr>]))) = n + 1 \<and>
   spec_next_number (period_numbers yr
      (map agreement_no (ags @ [arow\<lparr>agreement_no := get_next_agreement_no yr ags\<rparr>]))) = m + 1"
proof -
  have seg: "seg = zfill 4 (str_int n)"
    unfolding seg_def n_def get_next_invoice_ref_spec by (rule reference_segment)
  have aseg: "aseg = zfill 4 (str_int m)"
    unfolding aseg_def m_def get_next_agreement_no_spec by (rule reference_segment)
  have like1: "sql_like (''%/'' @ mk @ ''/%'') (get_next_invoice_ref mk invs)"
    unfolding get_next_invoice_ref_spec
    using reference_matches_period [of mk "''BE/KNG/PMSG/QTN''"] by simp
  have like2: "sql_like (''%/'' @ yr @ ''/%'') (get_next_agreement_no yr ags)"
    unfolding get_next_agreement_no_spec
    using reference_matches_period [of yr "''AG/SG/APDCL''"] by simp
  have p1: "py_int seg = Some n" by (simp only: seg py_int_zfill_str_int)
  have p2: "py_int aseg = Some m" by (simp only: aseg py_int_zfill_str_int)
  have s1: "spec_next_number (period_numbers mk
      (map invoice_ref (invs @ [row\<lparr>invoice_ref := get_next_invoice_ref mk invs\<rparr>]))) = n + 1"
    using period_numbers_snoc [OF like1 p1 [unfolded seg_def], of "map invoice_ref invs"]
      spec_next_number_insert [OF finite_period_numbers, of mk "map invoice_ref invs"]
    by (simp add: n_def)
  have s2: "spec_next_number (period_numbers yr
      (map agreement_no (ags @ [arow\<lparr>agreement_no := get_next_agreement_no yr ags\<rparr>]))) = m + 1"
    using period_numbers_snoc [OF like2 p2 [unfolded aseg_def], of "map agreement_no ags"]
      spec_next_number_insert [OF finite_period_numbers, of yr "map agreement_no ags"]
    by (simp add: m_def)
  show ?thesis
    using seg aseg p1 p2 s1 s2 zfill_width4 [of n] zfill_width4 [of m]
      zfill_unchanged [of n] zfill_unchanged [of m]
    by simp
qed

theorem reference_padding_never_truncates_witness:
  "spec_next_number (period_numbers ''01/25''
     (map invoice_ref (map invoice_with_ref
        [''BE/KNG/PMSG/QTN/01/25/0001'', ''BE/KNG/PMSG/QTN/01/25/0003'',
         ''BE/KNG/PMSG/QTN/12/24/0009'', ''BE/KNG/PMSG/QTN/01/25/draft'']))) = 4 \<and>
   length (last (split_on CHR ''/'' (get_next_invoice_ref ''01/25''
     (map invoice_with_ref
        [''BE/KNG/PMSG/QTN/01/25/0001'', ''BE/KNG/PMSG/QTN/01/25/0003'',
         ''BE/KNG/PMSG/QTN/12/24/0009'', ''BE/KNG/PMSG/QTN/01/25/draft''])))) = 4 \<and>
   spec_next_number (period_numbers ''01/25''
     (map invoice_ref [invoice_with_ref ''BE/KNG/PMSG/QTN/01/25/9999''])) = 10000 \<and>
   last (split_on CHR ''/'' (get_next_invoice_ref ''01/25''
     [invoice_with_ref ''BE/KNG/PMSG/QTN/01/25/9999''])) = str_int 10000 \<and>
   4 < length (last (split_on CHR ''/'' (get_next_invoice_ref ''01/25''
     [invoice_with_ref ''BE/KNG/PMSG/QTN/01/25/9999''])))"
proof -
  let ?invs = "map invoice_with_ref
        [''BE/KNG/PMSG/QTN/01/25/0001'', ''BE/KNG/PMSG/QTN/01/25/0003'',
         ''BE/KNG/PMSG/QTN/12/24/0009'', ''BE/KNG/PMSG/QTN/01/25/draft'']"
  let ?big = "[invoice_with_ref ''BE/KNG/PMSG/QTN/01/25/9999'']"
  have n1: "spec_next_number (period_numbers ''01/25'' (map invoice_ref ?invs)) = 4"
    by (simp only: example_period_numbers spec_next_number_1_3)
  have n2: "spec_next_number (period_numbers ''01/25'' (map invoice_ref ?big)) = 10000"
    by (simp only: example_period_numbers_9999) (simp add: spec_next_number_def)
  note t1 = reference_padding_never_truncates [where mk = "''01/25''" and invs = ?invs]
  note t2 = reference_padding_never_truncates [where mk = "''01/25''" and invs = ?big]
  have h1: "- 1000 < spec_next_number (period_numbers ''01/25'' (map invoice_ref ?invs)) \<and>
            spec_next_number (period_numbers ''01/25'' (map invoice_ref ?invs)) < 10000"
    unfolding n1 by simp
  have h2: "10000 \<le> spec_next_number (period_numbers ''01/25'' (map invoice_ref ?big))"
    unfolding n2 by simp
  have l1: "length (last (split_on CHR ''/'' (get_next_invoice_ref ''01/25'' ?invs))) = 4"
    by (rule mp [OF t1 [THEN conjunct2, THEN conjunct2, THEN conjunct1] h1])
  have l2: "last (split_on CHR ''/'' (get_next_invoice_ref ''01/25'' ?big)) =
              str_int (spec_next_number (period_numbers ''01/25'' (map invoice_ref ?big))) \<and>
            4 < length (last (split_on CHR ''/'' (get_next_invoice_ref ''01/25'' ?big)))"
    by (rule mp [OF t2 [THEN conjunct2, THEN conjunct2, THEN conjunct2, THEN conjunct2,
            THEN conjunct1] h2])
  from l2 have l3: "last (split_on CHR ''/'' (get_next_invoice_ref ''01/25'' ?big)) = str_int 10000"
    by (simp only: n2)
  from n1 l1 n2 l3 l2 show ?thesis by (intro conjI) (erule conjunct2 | assumption)+
qed

text \<open>
  Claim C9 as it is written gives 4 characters to every next value below 10000. A
  stored reference may end in a negative integer: after \<open>-2000\<close> the next value is
  \<open>-1999\<close>, written with 5 characters.
\<close>

theorem reference_negative_counterexample:
  "get_next_invoice_ref ''01/25'' [invoice_with_ref ''BE/KNG/PMSG/QTN/01/25/-2000'']
     = ''BE/KNG/PMSG/QTN/01/25/-1999'' \<and>
   next_num_of (collect_nums [''BE/KNG/PMSG/QTN/01/25/-2000'']) = - 1999 \<and>
   (- 1999 :: int) < 10000 \<and>
   length (last (split_on CHR ''/''
     (get_next_invoice_ref ''01/25'' [invoice_with_ref ''BE/KNG/PMSG/QTN/01/25/-2000'']))) = 5"
  by code_simp

text \<open>
  Claim C10. A login that succeeds leaves, in every row, the id, username, password
  hash, role, \<open>active\<close>, \<open>locked\<close> and \<open>last_logout\<close> as they were: it writes
  \<open>failed_attempts\<close> and \<open>last_login\<close> only. A call that returns \<open>None\<close>, and
  \<open>unlock_user\<close>, leave the id, username, password hash, role, \<open>active\<close>,
  \<open>last_login\<close> and \<open>last_logout\<close> as they were: they write \<open>failed_attempts\<close> and
  \<open>locked\<close> only. Rows of another id than the user's are not written at all.
\<close>

theorem login_and_unlock_frame:
  "(fst (validate_login H now db n pw) \<noteq> None \<longrightarrow>
      list_all2 frame_success db (snd (validate_login H now db n pw))) \<and>
   (fst (validate_login H now db n pw) = None \<longrightarrow>
      list_all2 frame_failure db (snd (validate_login H now db n pw))) \<and>
   list_all2 frame_failure db (unlock_user db k) \<and>
   (get_user db n = Some u \<and> i < length db \<and> uid (db ! i) \<noteq> uid u \<longrightarrow>
      snd (validate_login H now db n pw) ! i = db ! i) \<and>
   (i < length db \<and> uid (db ! i) \<noteq> k \<longrightarrow> unlock_user db k ! i = db ! i)"
  using validate_login_frame_success [of H now db n pw]
    validate_login_frame_failure [of H now db n pw] unlock_user_frame [of db k]
    validate_login_other_rows [of db n u i H now pw] unlock_user_other_rows [of i db k]
  by blast

theorem login_and_unlock_frame_witness:
  "fst (validate_login rev ''2025-01-10T09:00:00'' [admin_row, staff_row] ''asha'' ''secret'')
     \<noteq> None \<and>
   list_all2 frame_success [admin_row, staff_row]
     (snd (validate_login rev ''2025-01-10T09:00:00'' [admin_row, staff_row] ''asha'' ''secret'')) \<and>
   fst (validate_login rev ''2025-01-10T09:00:00'' [admin_row, staff_row] ''asha'' ''guess'')
     = None \<and>
   list_all2 frame_failure [admin_row, staff_row]
     (snd (validate_login rev ''2025-01-10T09:00:00'' [admin_row, staff_row] ''asha'' ''guess'')) \<and>
   get_user [admin_row, staff_row] ''asha'' = Some staff_row \<and>
   uid ([admin_row, staff_row] ! 0) \<noteq> uid staff_row \<and>
   snd (validate_login rev ''2025-01-10T09:00:00'' [admin_row, staff_row] ''asha'' ''guess'') ! 0
     = admin_row \<and>
   unlock_user [admin_row, staff_row] 7 ! 0 = admin_row"
proof -
  have a: "fst (validate_login rev ''2025-01-10T09:00:00'' [admin_row, staff_row]
                  ''asha'' ''secret'') \<noteq> None"
    "fst (validate_login rev ''2025-01-10T09:00:00'' [admin_row, staff_row]
            ''asha'' ''guess'') = None"
    by (simp_all add: validate_login_def get_user_def admin_row_def staff_row_def
          verify_password_def hash_password_def)
  have g: "get_user [admin_row, staff_row] ''asha'' = Some staff_row"
    "(0::nat) < length [admin_row, staff_row]"
    "uid ([admin_row, staff_row] ! 0) \<noteq> uid staff_row"
    "uid ([admin_row, staff_row] ! 0) \<noteq> 7"
    by (simp_all add: get_user_def admin_row_def staff_row_def)
  show ?thesis
    using a g
      login_and_unlock_frame [of rev "''2025-01-10T09:00:00''" "[admin_row, staff_row]"
        "''asha''" "''secret''" 7 staff_row 0]
      login_and_unlock_frame [of rev "''2025-01-10T09:00:00''" "[admin_row, staff_row]"
        "''asha''" "''guess''" 7 staff_row 0]
    by simp
qed

end
